theory Spec2Isabelle
  imports Complex_Main
begin

section \<open>Numbers: float64\<close>

text \<open>
  The Go sources compute on \<^verbatim>\<open>float64\<close>. A value is modelled as a finite real, one of
  the two infinities, or NaN. The special values follow IEEE 754 as Go implements it
  (NaN propagates, \<open>Inf - Inf\<close> and \<open>0 * Inf\<close> are NaN, a comparison with NaN is false).
  The two zeros are one value (a division of a non-zero finite value by zero gives the
  infinity with the sign of the dividend).

  The operations \<open>fadd\<close>, \<open>fsub\<close>, \<open>fmul\<close>, \<open>fdiv\<close>, \<open>fsqrt\<close> of this section are exact on finite
  values: they do not round and do not overflow. The next section defines the rounding
  of a real to the nearest \<^verbatim>\<open>float64\<close> and the rounded operations \<open>add_f64\<close>, \<open>sub_f64\<close>,
  \<open>mul_f64\<close>, \<open>div_f64\<close>, \<open>sqrt_f64\<close>. \<^verbatim>\<open>bisectionMethod\<close> is modelled over the rounded
  operations and \<^verbatim>\<open>solveQuadraticFormula\<close> over both; the quadrature, the arc-length
  polynomial, the elliptical arcs and the flattener are modelled over the exact ones,
  and what is proved of them is proved of exact arithmetic.
\<close>

datatype float64 = Fin real | PInf | NInf | NaN

text \<open>\<^verbatim>\<open>math.IsNaN\<close>.\<close>

definition IsNaN :: "float64 \<Rightarrow> bool" where
  "IsNaN x = (x = NaN)"

text \<open>The infinity with the sign of \<open>s\<close>; NaN for \<open>s = 0\<close> (as in \<open>0 * Inf\<close>, \<open>0 / 0\<close>).\<close>

definition inf_of_sign :: "real \<Rightarrow> float64" where
  "inf_of_sign s = (if s = 0 then NaN else if 0 < s then PInf else NInf)"

fun fneg :: "float64 \<Rightarrow> float64" where
  "fneg (Fin x) = Fin (- x)"
| "fneg PInf = NInf"
| "fneg NInf = PInf"
| "fneg NaN = NaN"

fun fadd :: "float64 \<Rightarrow> float64 \<Rightarrow> float64" where
  "fadd (Fin x) (Fin y) = Fin (x + y)"
| "fadd NaN _ = NaN"
| "fadd _ NaN = NaN"
| "fadd PInf NInf = NaN"
| "fadd NInf PInf = NaN"
| "fadd PInf _ = PInf"
| "fadd _ PInf = PInf"
| "fadd NInf _ = NInf"
| "fadd _ NInf = NInf"

definition fsub :: "float64 \<Rightarrow> float64 \<Rightarrow> float64" where
  "fsub a b = fadd a (fneg b)"

fun fmul :: "float64 \<Rightarrow> float64 \<Rightarrow> float64" where
  "fmul (Fin x) (Fin y) = Fin (x * y)"
| "fmul NaN _ = NaN"
| "fmul _ NaN = NaN"
| "fmul PInf (Fin y) = inf_of_sign y"
| "fmul (Fin x) PInf = inf_of_sign x"
| "fmul NInf (Fin y) = inf_of_sign (- y)"
| "fmul (Fin x) NInf = inf_of_sign (- x)"
| "fmul PInf PInf = PInf"
| "fmul PInf NInf = NInf"
| "fmul NInf PInf = NInf"
| "fmul NInf NInf = PInf"

fun fdiv :: "float64 \<Rightarrow> float64 \<Rightarrow> float64" where
  "fdiv (Fin x) (Fin y) = (if y = 0 then inf_of_sign x else Fin (x / y))"
| "fdiv NaN _ = NaN"
| "fdiv _ NaN = NaN"
| "fdiv (Fin x) PInf = Fin 0"
| "fdiv (Fin x) NInf = Fin 0"
| "fdiv PInf (Fin y) = (if 0 \<le> y then PInf else NInf)"
| "fdiv NInf (Fin y) = (if 0 \<le> y then NInf else PInf)"
| "fdiv PInf PInf = NaN"
| "fdiv PInf NInf = NaN"
| "fdiv NInf PInf = NaN"
| "fdiv NInf NInf = NaN"

text \<open>\<^verbatim>\<open>math.Abs\<close>, \<^verbatim>\<open>math.Sqrt\<close>, \<^verbatim>\<open>math.Cbrt\<close>, \<^verbatim>\<open>math.Hypot\<close>.\<close>

fun fabs :: "float64 \<Rightarrow> float64" where
  "fabs (Fin x) = Fin \<bar>x\<bar>"
| "fabs PInf = PInf"
| "fabs NInf = PInf"
| "fabs NaN = NaN"

fun fsqrt :: "float64 \<Rightarrow> float64" where
  "fsqrt (Fin x) = (if x < 0 then NaN else Fin (sqrt x))"
| "fsqrt PInf = PInf"
| "fsqrt NInf = NaN"
| "fsqrt NaN = NaN"

fun fcbrt :: "float64 \<Rightarrow> float64" where
  "fcbrt (Fin x) = Fin (root 3 x)"
| "fcbrt PInf = PInf"
| "fcbrt NInf = NInf"
| "fcbrt NaN = NaN"

fun fhypot :: "float64 \<Rightarrow> float64 \<Rightarrow> float64" where
  "fhypot (Fin x) (Fin y) = Fin (sqrt (x * x + y * y))"
| "fhypot PInf _ = PInf"
| "fhypot NInf _ = PInf"
| "fhypot _ PInf = PInf"
| "fhypot _ NInf = PInf"
| "fhypot NaN _ = NaN"
| "fhypot _ NaN = NaN"

text \<open>The comparisons \<^verbatim>\<open>==\<close>, \<^verbatim>\<open><\<close>, \<^verbatim>\<open><=\<close>, \<^verbatim>\<open>>\<close>, \<^verbatim>\<open>>=\<close>, \<^verbatim>\<open>!=\<close>: all but the last are
  false when an operand is NaN.\<close>

fun feq :: "float64 \<Rightarrow> float64 \<Rightarrow> bool" where
  "feq (Fin x) (Fin y) = (x = y)"
| "feq PInf PInf = True"
| "feq NInf NInf = True"
| "feq _ _ = False"

fun flt :: "float64 \<Rightarrow> float64 \<Rightarrow> bool" where
  "flt (Fin x) (Fin y) = (x < y)"
| "flt NaN _ = False"
| "flt _ NaN = False"
| "flt _ NInf = False"
| "flt PInf _ = False"
| "flt NInf _ = True"
| "flt _ PInf = True"

definition fle :: "float64 \<Rightarrow> float64 \<Rightarrow> bool" where
  "fle a b = (flt a b \<or> feq a b)"

definition fgt :: "float64 \<Rightarrow> float64 \<Rightarrow> bool" where
  "fgt a b = flt b a"

definition fge :: "float64 \<Rightarrow> float64 \<Rightarrow> bool" where
  "fge a b = fle b a"

definition fne :: "float64 \<Rightarrow> float64 \<Rightarrow> bool" where
  "fne a b = (\<not> feq a b)"




text \<open>\<^verbatim>\<open>math.Sincos\<close> and \<^verbatim>\<open>math.Acos\<close>: NaN outside their domains.\<close>

fun fsin :: "float64 \<Rightarrow> float64" where
  "fsin (Fin x) = Fin (sin x)"
| "fsin _ = NaN"

fun fcos :: "float64 \<Rightarrow> float64" where
  "fcos (Fin x) = Fin (cos x)"
| "fcos _ = NaN"




section \<open>Rounding to float64\<close>

text \<open>
  A \<^verbatim>\<open>float64\<close> operation returns the exact result rounded to the nearest representable
  value, ties to the even significand (IEEE 754 binary64: a significand of 53 bits, the
  exponent of the last place between \<open>-1074\<close> and \<open>971\<close>, gradual underflow, overflow to an
  infinity). The Go compiler for amd64 rounds after every operation; it does not fuse a
  multiplication with an addition.
\<close>

text \<open>Rounding a real to the nearest integer, ties to even.\<close>

definition round_even :: "real \<Rightarrow> int" where
  "round_even x =
     (let n = \<lfloor>x\<rfloor>; d = x - of_int n in
      if d < 1 / 2 then n else if 1 / 2 < d then n + 1 else if even n then n else n + 1)"

text \<open>The exponent of the last place of the binade of \<open>x\<close>; \<open>-1074\<close> in the subnormal range.\<close>

definition ulp_exp :: "real \<Rightarrow> int" where
  "ulp_exp x = max (\<lfloor>log 2 \<bar>x\<bar>\<rfloor> - 52) (- 1074)"

text \<open>The nearest multiple of the last place, before the check for overflow.\<close>

definition round_nearest :: "real \<Rightarrow> real" where
  "round_nearest x =
     (if x = 0 then 0
      else (let q = 2 powr of_int (ulp_exp x) in of_int (round_even (x / q)) * q))"

definition overflow_threshold :: real where
  "overflow_threshold = 2 ^ 1024"

text \<open>The rounded value: an infinity when the rounded magnitude reaches \<open>2\<^sup>1\<^sup>0\<^sup>2\<^sup>4\<close>.\<close>

definition round64 :: "real \<Rightarrow> float64" where
  "round64 x = (if overflow_threshold \<le> \<bar>round_nearest x\<bar> then inf_of_sign x else Fin (round_nearest x))"

text \<open>The reals that are values of \<^verbatim>\<open>float64\<close>: every finite value a Go variable can hold.\<close>

definition is_float64 :: "real \<Rightarrow> bool" where
  "is_float64 x = (round64 x = Fin x)"

text \<open>Rounding a result; the infinities and NaN are kept.\<close>

fun r64 :: "float64 \<Rightarrow> float64" where
  "r64 (Fin x) = round64 x"
| "r64 PInf = PInf"
| "r64 NInf = NInf"
| "r64 NaN = NaN"

definition add_f64 :: "float64 \<Rightarrow> float64 \<Rightarrow> float64" where
  "add_f64 a b = r64 (fadd a b)"

definition sub_f64 :: "float64 \<Rightarrow> float64 \<Rightarrow> float64" where
  "sub_f64 a b = r64 (fsub a b)"

definition mul_f64 :: "float64 \<Rightarrow> float64 \<Rightarrow> float64" where
  "mul_f64 a b = r64 (fmul a b)"

definition div_f64 :: "float64 \<Rightarrow> float64 \<Rightarrow> float64" where
  "div_f64 a b = r64 (fdiv a b)"

definition sqrt_f64 :: "float64 \<Rightarrow> float64" where
  "sqrt_f64 a = r64 (fsqrt a)"

section \<open>Collaborators: points and the path sink\<close>

text \<open>The struct \<^verbatim>\<open>Point{X, Y}\<close>.\<close>

record Point =
  X :: float64
  Y :: float64

text \<open>\<^verbatim>\<open>Point{}\<close>, the zero value.\<close>

definition PointZero :: Point where
  "PointZero = \<lparr>X = Fin 0, Y = Fin 0\<rparr>"

text \<open>
  Modelled from the spec: the methods of \<^verbatim>\<open>Point\<close> are not among the source files. The
  specification lists them as Add, Sub, Mul(scalar), Dot, PerpDot (2D cross product),
  Length, Norm(d) (scale to length d; zero vector maps to zero), Rot90CW and
  Interpolate(other, t) = self + (other - self) * t.
\<close>

definition Add :: "Point \<Rightarrow> Point \<Rightarrow> Point" where
  "Add p q = \<lparr>X = fadd (X p) (X q), Y = fadd (Y p) (Y q)\<rparr>"

definition Sub :: "Point \<Rightarrow> Point \<Rightarrow> Point" where
  "Sub p q = \<lparr>X = fsub (X p) (X q), Y = fsub (Y p) (Y q)\<rparr>"

definition Mul :: "Point \<Rightarrow> float64 \<Rightarrow> Point" where
  "Mul p f = \<lparr>X = fmul (X p) f, Y = fmul (Y p) f\<rparr>"

definition Dot :: "Point \<Rightarrow> Point \<Rightarrow> float64" where
  "Dot p q = fadd (fmul (X p) (X q)) (fmul (Y p) (Y q))"

definition PerpDot :: "Point \<Rightarrow> Point \<Rightarrow> float64" where
  "PerpDot p q = fsub (fmul (X p) (Y q)) (fmul (Y p) (X q))"

definition Length :: "Point \<Rightarrow> float64" where
  "Length p = fsqrt (fadd (fmul (X p) (X p)) (fmul (Y p) (Y p)))"

definition Rot90CW :: "Point \<Rightarrow> Point" where
  "Rot90CW p = \<lparr>X = Y p, Y = fneg (X p)\<rparr>"

definition Norm :: "Point \<Rightarrow> float64 \<Rightarrow> Point" where
  "Norm p len =
     (let d = Length p in
      if feq d (Fin 0) then PointZero
      else \<lparr>X = fmul (fdiv (X p) d) len, Y = fmul (fdiv (Y p) d) len\<rparr>)"

definition Interpolate :: "Point \<Rightarrow> Point \<Rightarrow> float64 \<Rightarrow> Point" where
  "Interpolate p q t = Add p (Mul (Sub q p) t)"

text \<open>
  Modelled from the spec: the type \<^verbatim>\<open>Path\<close> is not among the source files. The
  specification describes the path sink as an append-only ordered sequence of line and
  quad commands with \<^verbatim>\<open>line_to(x,y)\<close> and \<^verbatim>\<open>quad_to(cx,cy,x,y)\<close>; each call appends one
  command.
\<close>

datatype Cmd = LineToCmd float64 float64 | QuadToCmd float64 float64 float64 float64

type_synonym Path = "Cmd list"

definition LineTo :: "Path \<Rightarrow> float64 \<Rightarrow> float64 \<Rightarrow> Path" where
  "LineTo p x y = p @ [LineToCmd x y]"

definition QuadTo :: "Path \<Rightarrow> float64 \<Rightarrow> float64 \<Rightarrow> float64 \<Rightarrow> float64 \<Rightarrow> Path" where
  "QuadTo p cx cy x y = p @ [QuadToCmd cx cy x y]"



text \<open>A \<^verbatim>\<open>panic\<close> is a value: a function that can panic returns \<open>Inl\<close> of it.\<close>

datatype error = Panic string

section \<open>RootFinder\<close>

text \<open>\<^verbatim>\<open>solveQuadraticFormula\<close> (path\_util.go, lines 9 to 68).\<close>

definition solveQuadraticFormula :: "float64 \<Rightarrow> float64 \<Rightarrow> float64 \<Rightarrow> float64 \<times> float64" where
  "solveQuadraticFormula a b c =
     (if feq a (Fin 0) then
        (if feq b (Fin 0) then
           (if feq c (Fin 0) then (Fin 0, NaN) else (NaN, NaN))
         else
           (let x1 = fdiv (fneg c) b;
                x1 = (if fle (Fin 1) x1 \<or> flt x1 (Fin 0) then NaN else x1)
            in (x1, NaN)))
      else if feq c (Fin 0) then
        (let x2 = fdiv (fneg b) a;
             x2 = (if fle (Fin 1) x2 \<or> flt x2 (Fin 0) then NaN else x2)
         in (Fin 0, x2))
      else
        (let discriminant = fsub (fmul b b) (fmul (fmul (Fin 4) a) c) in
         if flt discriminant (Fin 0) then (NaN, NaN)
         else if feq discriminant (Fin 0) then
           (let x1 = fdiv (fneg b) (fmul (Fin 2) a);
                x1 = (if fle (Fin 1) x1 \<or> flt x1 (Fin 0) then NaN else x1)
            in (x1, NaN))
         else
           (let q = fsqrt discriminant;
                q = (if flt b (Fin 0) then fneg q else q);
                x1 = fdiv (fneg (fadd b q)) (fmul (Fin 2) a);
                x2 = fdiv c (fmul a x1);
                (x1, x2) = (if fgt x1 x2 then (x2, x1) else (x1, x2));
                x1 = (if fle (Fin 1) x1 \<or> flt x1 (Fin 0) then NaN else x1);
                x2 = (if fle (Fin 1) x2 \<or> flt x2 (Fin 0) then NaN else x2)
            in (x1, x2))))"


text \<open>
  The same function with every arithmetic operation rounded to \<^verbatim>\<open>float64\<close>. The
  constants \<open>4.0\<close>, \<open>2.0\<close>, \<open>1.0\<close>, \<open>0.0\<close> are values of \<^verbatim>\<open>float64\<close>; negation and the
  comparisons are exact.
\<close>

definition solveQuadraticFormula_f64 :: "float64 \<Rightarrow> float64 \<Rightarrow> float64 \<Rightarrow> float64 \<times> float64" where
  "solveQuadraticFormula_f64 a b c =
     (if feq a (Fin 0) then
        (if feq b (Fin 0) then
           (if feq c (Fin 0) then (Fin 0, NaN) else (NaN, NaN))
         else
           (let x1 = div_f64 (fneg c) b;
                x1 = (if fle (Fin 1) x1 \<or> flt x1 (Fin 0) then NaN else x1)
            in (x1, NaN)))
      else if feq c (Fin 0) then
        (let x2 = div_f64 (fneg b) a;
             x2 = (if fle (Fin 1) x2 \<or> flt x2 (Fin 0) then NaN else x2)
         in (Fin 0, x2))
      else
        (let discriminant = sub_f64 (mul_f64 b b) (mul_f64 (mul_f64 (Fin 4) a) c) in
         if flt discriminant (Fin 0) then (NaN, NaN)
         else if feq discriminant (Fin 0) then
           (let x1 = div_f64 (fneg b) (mul_f64 (Fin 2) a);
                x1 = (if fle (Fin 1) x1 \<or> flt x1 (Fin 0) then NaN else x1)
            in (x1, NaN))
         else
           (let q = sqrt_f64 discriminant;
                q = (if flt b (Fin 0) then fneg q else q);
                x1 = div_f64 (fneg (add_f64 b q)) (mul_f64 (Fin 2) a);
                x2 = div_f64 c (mul_f64 a x1);
                (x1, x2) = (if fgt x1 x2 then (x2, x1) else (x1, x2));
                x1 = (if fle (Fin 1) x1 \<or> flt x1 (Fin 0) then NaN else x1);
                x2 = (if fle (Fin 1) x2 \<or> flt x2 (Fin 0) then NaN else x2)
            in (x1, x2))))"

text \<open>A predicate for stating properties of one returned value \<open>x\<close> for the equation
  \<open>a x\<^sup>2 + b x + c = 0\<close>: absent, or a root in \<open>[0, 1)\<close>.\<close>

definition root_ok :: "real \<Rightarrow> real \<Rightarrow> real \<Rightarrow> float64 \<Rightarrow> bool" where
  "root_ok a b c x = (x \<noteq> NaN \<longrightarrow> (\<exists>r. x = Fin r \<and> 0 \<le> r \<and> r < 1 \<and> a * r\<^sup>2 + b * r + c = 0))"

text \<open>A returned value is absent or lies in \<open>[0, 1)\<close>.\<close>

definition in_unit :: "float64 \<Rightarrow> bool" where
  "in_unit x = (x = NaN \<or> (\<exists>r. x = Fin r \<and> 0 \<le> r \<and> r < 1))"

section \<open>Quadrature and bisection\<close>

text \<open>\<^verbatim>\<open>gaussLegendre5\<close> (lines 84 to 93), with the abscissae and weights as written.\<close>

definition gaussLegendre5 :: "(float64 \<Rightarrow> float64) \<Rightarrow> float64 \<Rightarrow> float64 \<Rightarrow> float64" where
  "gaussLegendre5 f a b =
     (let c = fdiv (fsub b a) (Fin 2);
          d = fdiv (fadd a b) (Fin 2);
          Qd1 = f (fadd (fmul (Fin (- 0.90618)) c) d);
          Qd2 = f (fadd (fmul (Fin (- 0.538469)) c) d);
          Qd3 = f d;
          Qd4 = f (fadd (fmul (Fin 0.538469) c) d);
          Qd5 = f (fadd (fmul (Fin 0.90618) c) d)
      in fmul c (fadd (fadd (fmul (Fin 0.236927) (fadd Qd1 Qd5))
                            (fmul (Fin 0.478629) (fadd Qd2 Qd4)))
                      (fmul (Fin 0.568889) Qd3)))"

text \<open>
  \<^verbatim>\<open>bisectionMethod\<close> (lines 110 to 136), over the rounded operations. The loop is
  \<open>bisectionLoop\<close>; its state is the counter \<open>n\<close> and the bracket, and it returns the estimate
  together with the final value of \<open>n\<close>, the number of bisections made. \<open>bisectionRun\<close> is
  the function's body with that pair as its result; \<^verbatim>\<open>bisectionMethod\<close> returns the
  estimate. \<^verbatim>\<open>MaxIterations\<close> is 100; \<^verbatim>\<open>Tolerance\<close> is the constant 0.001 converted to
  \<^verbatim>\<open>float64\<close>, that is \<open>round64 0.001\<close>.
\<close>

function bisectionLoop ::
  "(float64 \<Rightarrow> float64) \<Rightarrow> float64 \<Rightarrow> float64 \<Rightarrow> float64 \<Rightarrow> nat \<Rightarrow> float64 \<Rightarrow> float64
     \<Rightarrow> float64 \<times> nat" where
  "bisectionLoop f y toleranceX toleranceY n xmin xmax =
     (if n \<ge> 100 then (div_f64 (add_f64 xmin xmax) (Fin 2), n)
      else if flt (fabs (sub_f64 (f (div_f64 (add_f64 xmin xmax) (Fin 2))) y)) toleranceY
              \<or> flt (div_f64 (fabs (sub_f64 xmax xmin)) (Fin 2)) toleranceX
      then (div_f64 (add_f64 xmin xmax) (Fin 2), n)
      else if fgt (sub_f64 (f (div_f64 (add_f64 xmin xmax) (Fin 2))) y) (Fin 0)
      then bisectionLoop f y toleranceX toleranceY (n + 1) xmin (div_f64 (add_f64 xmin xmax) (Fin 2))
      else bisectionLoop f y toleranceX toleranceY (n + 1) (div_f64 (add_f64 xmin xmax) (Fin 2)) xmax)"
  by pat_completeness auto
termination
  by (relation "measure (\<lambda>(f, y, tx, ty, n, xmin, xmax). 100 - n)") auto

declare bisectionLoop.simps [simp del]

definition bisectionRun ::
  "(float64 \<Rightarrow> float64) \<Rightarrow> float64 \<Rightarrow> float64 \<Rightarrow> float64 \<Rightarrow> float64 \<times> nat" where
  "bisectionRun f y xmin xmax =
     (let toleranceX = mul_f64 (fabs (sub_f64 xmax xmin)) (round64 0.001);
          toleranceY = mul_f64 (fabs (sub_f64 (f xmax) (f xmin))) (round64 0.001)
      in bisectionLoop f y toleranceX toleranceY 0 xmin xmax)"

definition bisectionMethod :: "(float64 \<Rightarrow> float64) \<Rightarrow> float64 \<Rightarrow> float64 \<Rightarrow> float64 \<Rightarrow> float64" where
  "bisectionMethod f y xmin xmax = fst (bisectionRun f y xmin xmax)"

section \<open>Arc-length parametrization\<close>

text \<open>\<^verbatim>\<open>polynomialApprox3\<close> (lines 141 to 166): the returned closure and \<^verbatim>\<open>math.Abs(y3)\<close>.\<close>

definition polynomialApprox3 ::
  "((float64 \<Rightarrow> float64) \<Rightarrow> float64 \<Rightarrow> float64 \<Rightarrow> float64) \<Rightarrow> (float64 \<Rightarrow> float64) \<Rightarrow> float64 \<Rightarrow> float64
     \<Rightarrow> (float64 \<Rightarrow> float64) \<times> float64" where
  "polynomialApprox3 gaussLegendre fp xmin xmax =
     (let y1 = gaussLegendre fp xmin (fadd xmin (fdiv (fmul (fsub xmax xmin) (Fin 1)) (Fin 3)));
          y2 = gaussLegendre fp xmin (fadd xmin (fdiv (fmul (fsub xmax xmin) (Fin 2)) (Fin 3)));
          y3 = gaussLegendre fp xmin xmax;
          a = fadd (fsub (fmul (Fin 13.5) y1) (fmul (Fin 13.5) y2)) (fmul (Fin 4.5) y3);
          b = fsub (fadd (fmul (Fin (- 22.5)) y1) (fmul (Fin 18) y2)) (fmul (Fin 4.5) y3);
          c = fadd (fsub (fmul (Fin 9) y1) (fmul (Fin 4.5) y2)) y3
      in (\<lambda>x. (let x = fdiv (fsub x xmin) (fsub xmax xmin)
                in fadd (fadd (fmul (fmul (fmul a x) x) x) (fmul (fmul b x) x)) (fmul c x)),
          fabs y3))"

section \<open>Elliptical arcs\<close>


definition ellipseDeriv :: "float64 \<Rightarrow> float64 \<Rightarrow> float64 \<Rightarrow> bool \<Rightarrow> float64 \<Rightarrow> Point" where
  "ellipseDeriv rx ry phi sweep theta =
     (let sintheta = fsin theta; costheta = fcos theta;
          sinphi = fsin phi; cosphi = fcos phi;
          dx = fsub (fmul (fmul (fneg rx) sintheta) cosphi) (fmul (fmul ry costheta) sinphi);
          dy = fadd (fmul (fmul (fneg rx) sintheta) sinphi) (fmul (fmul ry costheta) cosphi)
      in if \<not> sweep then \<lparr>X = fneg dx, Y = fneg dy\<rparr> else \<lparr>X = dx, Y = dy\<rparr>)"

text \<open>\<^verbatim>\<open>ellipseLength\<close> (lines 281 to 289).\<close>

definition ellipseLength :: "float64 \<Rightarrow> float64 \<Rightarrow> float64 \<Rightarrow> float64 \<Rightarrow> float64" where
  "ellipseLength rx ry theta1 theta2 =
     (let (theta1, theta2) = (if flt theta2 theta1 then (theta2, theta1) else (theta1, theta2));
          speed = (\<lambda>theta. Length (ellipseDeriv rx ry (Fin 0) True theta))
      in gaussLegendre5 speed theta1 theta2)"






section \<open>Cubic Beziers: end-point normals and the line emitter\<close>

text \<open>\<^verbatim>\<open>cubicBezierNormal\<close> (lines 497 to 524). Go compares \<^verbatim>\<open>n.X == 0\<close> with the
  float comparison.\<close>

definition cubicBezierNormal ::
  "Point \<Rightarrow> Point \<Rightarrow> Point \<Rightarrow> Point \<Rightarrow> float64 \<Rightarrow> float64 \<Rightarrow> error + Point" where
  "cubicBezierNormal p0 p1 p2 p3 t d =
     (if feq t (Fin 0) then
        (let n = Sub p1 p0;
             n = (if feq (X n) (Fin 0) \<and> feq (Y n) (Fin 0) then Sub p2 p0 else n);
             n = (if feq (X n) (Fin 0) \<and> feq (Y n) (Fin 0) then Sub p3 p0 else n)
         in if feq (X n) (Fin 0) \<and> feq (Y n) (Fin 0) then Inr PointZero
            else Inr (Norm (Rot90CW n) d))
      else if feq t (Fin 1) then
        (let n = Sub p3 p2;
             n = (if feq (X n) (Fin 0) \<and> feq (Y n) (Fin 0) then Sub p3 p1 else n);
             n = (if feq (X n) (Fin 0) \<and> feq (Y n) (Fin 0) then Sub p3 p0 else n)
         in if feq (X n) (Fin 0) \<and> feq (Y n) (Fin 0) then Inr PointZero
            else Inr (Norm (Rot90CW n) d))
      else Inl (Panic ''not implemented''))"

text \<open>\<^verbatim>\<open>addCubicBezierLine\<close> (lines 572 to 597). The path is passed in and returned; the
  first test compares \<^verbatim>\<open>p0.Y\<close> with \<^verbatim>\<open>p3.X\<close>, as the source does.\<close>

definition addCubicBezierLine ::
  "Path \<Rightarrow> Point \<Rightarrow> Point \<Rightarrow> Point \<Rightarrow> Point \<Rightarrow> float64 \<Rightarrow> float64 \<Rightarrow> error + Path" where
  "addCubicBezierLine p p0 p1 p2 p3 t d =
     (if feq (X p0) (X p3) \<and> feq (Y p0) (X p3) \<and>
         (feq (X p0) (X p1) \<and> feq (Y p0) (Y p1) \<or> feq (X p0) (X p2) \<and> feq (Y p0) (Y p2))
      then Inr p
      else if feq t (Fin 0) then
        (if fne d (Fin 0) then
           (case cubicBezierNormal p0 p1 p2 p3 t d of
              Inl e \<Rightarrow> Inl e
            | Inr n \<Rightarrow> (let pos = Add p0 n in Inr (LineTo p (X pos) (Y pos))))
         else Inr (LineTo p (X p0) (Y p0)))
      else if feq t (Fin 1) then
        (if fne d (Fin 0) then
           (case cubicBezierNormal p0 p1 p2 p3 t d of
              Inl e \<Rightarrow> Inl e
            | Inr n \<Rightarrow> (let pos = Add p3 n in Inr (LineTo p (X pos) (Y pos))))
         else Inr (LineTo p (X p3) (Y p3)))
      else Inl (Panic ''not implemented''))"


section \<open>The adaptive flattener and stroker\<close>

text \<open>\<^verbatim>\<open>splitCubicBezier\<close> (lines 556 to 570).\<close>

definition splitCubicBezier ::
  "Point \<Rightarrow> Point \<Rightarrow> Point \<Rightarrow> Point \<Rightarrow> float64
     \<Rightarrow> Point \<times> Point \<times> Point \<times> Point \<times> Point \<times> Point \<times> Point \<times> Point" where
  "splitCubicBezier p0 p1 p2 p3 t =
     (let pm = Interpolate p1 p2 t;
          q0 = p0;
          q1 = Interpolate p0 p1 t;
          q2 = Interpolate q1 pm t;
          r3 = p3;
          r2 = Interpolate p2 p3 t;
          r1 = Interpolate pm r2 t;
          r0 = Interpolate q2 r1 t;
          q3 = r0
      in (q0, q1, q2, q3, r0, r1, r2, r3))"

text \<open>
  \<^verbatim>\<open>flattenSmoothCubicBezier\<close> (lines 600 to 620). \<open>flattenSmoothStep\<close> is the part of
  the loop body that computes the next parameter \<open>t\<close> (lines 603 to 612): \<open>None\<close> is the
  \<^verbatim>\<open>break\<close> for a zero curvature signal. \<open>flattenSmoothLoop\<close> is the loop with its state
  (the path, the remaining segment and \<open>t\<close>), followed by the closing call of
  \<^verbatim>\<open>addCubicBezierLine\<close>. The source proves no bound on the number of rounds, so the loop
  is a partial function: \<open>None\<close> stands for a run that does not return.
\<close>

definition flattenSmoothStep :: "Point \<Rightarrow> Point \<Rightarrow> Point \<Rightarrow> float64 \<Rightarrow> float64 \<Rightarrow> float64 option" where
  "flattenSmoothStep p0 p1 p2 d flatness =
     (let s2nom = fsub (fmul (fsub (X p2) (X p0)) (fsub (Y p1) (Y p0)))
                       (fmul (fsub (Y p2) (Y p0)) (fsub (X p1) (X p0)));
          denom = fhypot (fsub (X p1) (X p0)) (fsub (Y p1) (Y p0))
      in if feq (fmul s2nom denom) (Fin 0) then None
         else
          (let s2 = fdiv s2nom denom;
               r1 = denom;
               effectiveFlatness =
                 fdiv flatness
                   (fabs (fadd (Fin 1) (fdiv (fdiv (fdiv (fmul (fmul (Fin 2) d) s2) (Fin 3)) r1) r1)));
               t = fmul (Fin 2) (fsqrt (fdiv (fdiv effectiveFlatness (Fin 3)) (fabs s2)))
           in Some t))"

partial_function (option) flattenSmoothLoop ::
  "Path \<Rightarrow> Point \<Rightarrow> Point \<Rightarrow> Point \<Rightarrow> Point \<Rightarrow> float64 \<Rightarrow> float64 \<Rightarrow> float64 \<Rightarrow> (error + Path) option" where
  "flattenSmoothLoop p p0 p1 p2 p3 d flatness t =
     (if flt t (Fin 1) then
        (case flattenSmoothStep p0 p1 p2 d flatness of
           None \<Rightarrow> Some (addCubicBezierLine p p0 p1 p2 p3 (Fin 1) d)
         | Some t' \<Rightarrow>
             if fge t' (Fin 1) then Some (addCubicBezierLine p p0 p1 p2 p3 (Fin 1) d)
             else
              (case splitCubicBezier p0 p1 p2 p3 t' of
                 (_, _, _, _, q0, q1, q2, q3) \<Rightarrow>
                   (case addCubicBezierLine p q0 q1 q2 q3 (Fin 0) d of
                      Inl e \<Rightarrow> Some (Inl e)
                    | Inr p' \<Rightarrow> flattenSmoothLoop p' q0 q1 q2 q3 d flatness t')))
      else Some (addCubicBezierLine p p0 p1 p2 p3 (Fin 1) d))"

definition flattenSmoothCubicBezier ::
  "Path \<Rightarrow> Point \<Rightarrow> Point \<Rightarrow> Point \<Rightarrow> Point \<Rightarrow> float64 \<Rightarrow> float64 \<Rightarrow> (error + Path) option" where
  "flattenSmoothCubicBezier p p0 p1 p2 p3 d flatness =
     flattenSmoothLoop p p0 p1 p2 p3 d flatness (Fin 0)"

text \<open>\<^verbatim>\<open>findInflectionPointsCubicBezier\<close> (lines 622 to 635).\<close>

definition findInflectionPointsCubicBezier ::
  "Point \<Rightarrow> Point \<Rightarrow> Point \<Rightarrow> Point \<Rightarrow> float64 \<times> float64" where
  "findInflectionPointsCubicBezier p0 p1 p2 p3 =
     (let ax = fadd (fsub (fadd (fneg (X p0)) (fmul (Fin 3) (X p1))) (fmul (Fin 3) (X p2))) (X p3);
          ay = fadd (fsub (fadd (fneg (Y p0)) (fmul (Fin 3) (Y p1))) (fmul (Fin 3) (Y p2))) (Y p3);
          bx = fadd (fsub (X p0) (fmul (Fin 2) (X p1))) (X p2);
          by = fadd (fsub (Y p0) (fmul (Fin 2) (Y p1))) (Y p2);
          cx = fadd (fneg (X p0)) (X p1);
          cy = fadd (fneg (Y p0)) (Y p1);
          a = fsub (fmul ay bx) (fmul ax by);
          b = fsub (fmul ay cx) (fmul ax cy);
          c = fsub (fmul by cx) (fmul bx cy)
      in solveQuadraticFormula a b c)"

text \<open>\<^verbatim>\<open>findInflectionPointRange\<close> (lines 637 to 674).\<close>

definition findInflectionPointRange ::
  "Point \<Rightarrow> Point \<Rightarrow> Point \<Rightarrow> Point \<Rightarrow> float64 \<Rightarrow> float64 \<Rightarrow> error + float64 \<times> float64" where
  "findInflectionPointRange p0 p1 p2 p3 t flatness =
     (if IsNaN t then Inr (PInf, PInf)
      else if flt t (Fin 0) \<or> fgt t (Fin 1) then Inl (Panic ''t outside 0.0--1.0 range'')
      else
       (let (p0, p1, p2, p3) =
              (if fne t (Fin 0)
               then (case splitCubicBezier p0 p1 p2 p3 t of
                       (_, _, _, _, r0, r1, r2, r3) \<Rightarrow> (r0, r1, r2, r3))
               else (p0, p1, p2, p3));
            nr = Sub p1 p0;
            ns = Sub p3 p0;
            nr = (if feq (X nr) (Fin 0) \<and> feq (Y nr) (Fin 0) then Sub p2 p0 else nr)
        in if feq (X nr) (Fin 0) \<and> feq (Y nr) (Fin 0) then Inr (Fin 0, Fin 1)
           else
            (let s3 = fdiv (fabs (fsub (fmul (X ns) (Y nr)) (fmul (Y ns) (X nr))))
                           (fhypot (X nr) (Y nr))
             in if feq s3 (Fin 0) then Inr (Fin 0, Fin 1)
                else
                 (let tf = fcbrt (fdiv flatness s3)
                  in Inr (fsub t (fmul tf (fsub (Fin 1) t)), fadd t (fmul tf (fsub (Fin 1) t)))))))"

text \<open>
  \<^verbatim>\<open>strokeCubicBezier\<close> (lines 687 to 759). A result is \<open>Some (Inr p)\<close> for the returned
  path, \<open>Some (Inl e)\<close> for a panic and \<open>None\<close> for a run that does not return; \<open>andThen\<close>
  passes the path of one step to the next. \<open>strokeCubicBezierTail\<close> is the source from
  line 730 to the end, which both branches without an early return reach.
\<close>

definition andThen ::
  "(error + Path) option \<Rightarrow> (Path \<Rightarrow> (error + Path) option) \<Rightarrow> (error + Path) option" where
  "andThen r k = (case r of None \<Rightarrow> None | Some (Inl e) \<Rightarrow> Some (Inl e) | Some (Inr p) \<Rightarrow> k p)"

definition strokeCubicBezierTail ::
  "Path \<Rightarrow> Point \<Rightarrow> Point \<Rightarrow> Point \<Rightarrow> Point \<Rightarrow> float64 \<Rightarrow> float64 \<Rightarrow> float64 \<Rightarrow> float64 \<Rightarrow> float64
     \<Rightarrow> (error + Path) option" where
  "strokeCubicBezierTail p p0 p1 p2 p3 d flatness t1max t2min t2max =
     andThen
       (if flt (Fin 0) t2min then
          (if flt t2min t1max then
             (case splitCubicBezier p0 p1 p2 p3 t1max of
                (_, _, _, _, q0, q1, q2, q3) \<Rightarrow> Some (addCubicBezierLine p q0 q1 q2 q3 (Fin 0) d))
           else if flt (Fin 0) t1max then
             (case splitCubicBezier p0 p1 p2 p3 t1max of
                (_, _, _, _, q0, q1, q2, q3) \<Rightarrow>
                  (let t2minq = fdiv (fsub t2min t1max) (fsub (Fin 1) t1max)
                   in case splitCubicBezier q0 q1 q2 q3 t2minq of
                        (q0, q1, q2, q3, _, _, _, _) \<Rightarrow> flattenSmoothCubicBezier p q0 q1 q2 q3 d flatness))
           else
             (case splitCubicBezier p0 p1 p2 p3 t2min of
                (q0, q1, q2, q3, _, _, _, _) \<Rightarrow> flattenSmoothCubicBezier p q0 q1 q2 q3 d flatness))
        else Some (Inr p))
       (\<lambda>p. if flt t2max (Fin 1) then
               (case splitCubicBezier p0 p1 p2 p3 t2max of
                  (_, _, _, _, q0, q1, q2, q3) \<Rightarrow>
                    andThen (Some (addCubicBezierLine p q0 q1 q2 q3 (Fin 0) d))
                      (\<lambda>p. flattenSmoothCubicBezier p q0 q1 q2 q3 d flatness))
             else Some (addCubicBezierLine p p0 p1 p2 p3 (Fin 1) d))"

definition strokeCubicBezier ::
  "Point \<Rightarrow> Point \<Rightarrow> Point \<Rightarrow> Point \<Rightarrow> float64 \<Rightarrow> float64 \<Rightarrow> (error + Path) option" where
  "strokeCubicBezier p0 p1 p2 p3 d flatness =
     (let p = [];
          (t1, t2) = findInflectionPointsCubicBezier p0 p1 p2 p3
      in if IsNaN t1 \<and> IsNaN t2 then flattenSmoothCubicBezier p p0 p1 p2 p3 d flatness
         else
          (case findInflectionPointRange p0 p1 p2 p3 t1 flatness of
             Inl e \<Rightarrow> Some (Inl e)
           | Inr (t1min, t1max) \<Rightarrow>
              (case findInflectionPointRange p0 p1 p2 p3 t2 flatness of
                 Inl e \<Rightarrow> Some (Inl e)
               | Inr (t2min, t2max) \<Rightarrow>
                  if IsNaN t2 \<and> fle t1min (Fin 0) \<and> fle (Fin 1) t1max
                  then Some (addCubicBezierLine p p0 p1 p2 p3 (Fin 1) d)
                  else
                   andThen
                     (if flt (Fin 0) t1min then
                        (case splitCubicBezier p0 p1 p2 p3 t1min of
                           (q0, q1, q2, q3, _, _, _, _) \<Rightarrow>
                             flattenSmoothCubicBezier p q0 q1 q2 q3 d flatness)
                      else Some (Inr p))
                     (\<lambda>p. if flt (Fin 0) t1max \<and> flt t1max (Fin 1) \<and> flt t1max t2min then
                             (case splitCubicBezier p0 p1 p2 p3 t1max of
                                (_, _, _, _, q0, q1, q2, q3) \<Rightarrow>
                                  andThen (Some (addCubicBezierLine p q0 q1 q2 q3 (Fin 0) d))
                                    (\<lambda>p. if fle (Fin 1) t2min
                                          then flattenSmoothCubicBezier p q0 q1 q2 q3 d flatness
                                          else strokeCubicBezierTail p p0 p1 p2 p3 d flatness
                                                 t1max t2min t2max))
                           else if fle (Fin 1) t2min
                           then Some (addCubicBezierLine p p0 p1 p2 p3 (Fin 1) d)
                           else strokeCubicBezierTail p p0 p1 p2 p3 d flatness t1max t2min t2max))))"

text \<open>A point with finite coordinates.\<close>

definition pt :: "real \<Rightarrow> real \<Rightarrow> Point" where
  "pt x y = \<lparr>X = Fin x, Y = Fin y\<rparr>"

text \<open>The part of \<^verbatim>\<open>findInflectionPointRange\<close> after its optional split (lines 653 to
  673), used to reason about the function in two steps.\<close>

definition rangeCore :: "Point \<Rightarrow> Point \<Rightarrow> Point \<Rightarrow> Point \<Rightarrow> float64 \<Rightarrow> float64 \<Rightarrow> error + float64 \<times> float64" where
  "rangeCore p0 p1 p2 p3 t flatness =
       (let nr = Sub p1 p0;
            ns = Sub p3 p0;
            nr = (if feq (X nr) (Fin 0) \<and> feq (Y nr) (Fin 0) then Sub p2 p0 else nr)
        in if feq (X nr) (Fin 0) \<and> feq (Y nr) (Fin 0) then Inr (Fin 0, Fin 1)
           else
            (let s3 = fdiv (fabs (fsub (fmul (X ns) (Y nr)) (fmul (Y ns) (X nr))))
                           (fhypot (X nr) (Y nr))
             in if feq s3 (Fin 0) then Inr (Fin 0, Fin 1)
                else
                 (let tf = fcbrt (fdiv flatness s3)
                  in Inr (fsub t (fmul tf (fsub (Fin 1) t)), fadd t (fmul tf (fsub (Fin 1) t))))))"

section \<open>Properties: arithmetic helpers\<close>

lemma fadd_NaN [simp]: "fadd x NaN = NaN"
  by (cases x) simp_all

lemma fmul_NaN [simp]: "fmul x NaN = NaN"
  by (cases x) simp_all

lemma fdiv_NaN [simp]: "fdiv x NaN = NaN"
  by (cases x) simp_all

lemma fsub_NaN [simp]: "fsub x NaN = NaN" "fsub NaN x = NaN"
  by (simp_all add: fsub_def)

lemma flt_NaN [simp]: "flt x NaN = False"
  by (cases x) simp_all

lemma feq_NaN [simp]: "feq x NaN = False" "feq NaN x = False"
  by (cases x; simp)+

lemma fle_Fin: "fle (Fin x) (Fin y) = (x \<le> y)"
  by (auto simp: fle_def)

lemma flt_cases: "\<not> flt a b \<Longrightarrow> \<not> flt b a \<Longrightarrow> a = b \<or> a = NaN \<or> b = NaN"
  by (cases a; cases b) auto

section \<open>Properties of rounding\<close>

subsection \<open>round_even\<close>

lemma round_even_of_int [simp]: "round_even (of_int n) = n"
  by (simp add: round_even_def)

lemma round_even_eqI: "\<bar>r - of_int m\<bar> < 1 / 2 \<Longrightarrow> round_even r = m"
proof -
  assume a: "\<bar>r - of_int m\<bar> < 1 / 2"
  show ?thesis
  proof (cases "of_int m \<le> r")
    case True
    with a have "\<lfloor>r\<rfloor> = m" by (intro floor_unique) auto
    with a True show ?thesis by (simp add: round_even_def Let_def)
  next
    case False
    with a have f: "\<lfloor>r\<rfloor> = m - 1" by (intro floor_unique) auto
    with a False show ?thesis by (auto simp: round_even_def Let_def)
  qed
qed

lemma round_even_cases: "round_even x = \<lfloor>x\<rfloor> \<or> round_even x = \<lfloor>x\<rfloor> + 1"
  by (simp add: round_even_def Let_def)

lemma round_even_floor_le: "\<lfloor>x\<rfloor> \<le> round_even x"
  using round_even_cases [of x] by linarith

lemma round_even_mono:
  assumes "x \<le> y"
  shows "round_even x \<le> round_even y"
proof (cases "\<lfloor>x\<rfloor> = \<lfloor>y\<rfloor>")
  case True
  with assms show ?thesis by (auto simp: round_even_def Let_def)
next
  case False
  with assms have "\<lfloor>x\<rfloor> < \<lfloor>y\<rfloor>" using floor_mono [OF assms] by linarith
  then have "round_even x \<le> \<lfloor>y\<rfloor>" using round_even_cases [of x] by linarith
  with round_even_floor_le [of y] show ?thesis by linarith
qed

lemma round_even_le: "x \<le> of_int n \<Longrightarrow> round_even x \<le> n"
  using round_even_mono [of x "of_int n"] by simp

lemma round_even_ge: "of_int n \<le> x \<Longrightarrow> n \<le> round_even x"
  using round_even_mono [of "of_int n" x] by simp

lemma round_even_minus: "round_even (- x) = - round_even x"
proof (cases "x = of_int \<lfloor>x\<rfloor>")
  case True
  then obtain n where "x = of_int n" ..
  then have "- x = of_int (- n)" by simp
  with \<open>x = of_int n\<close> show ?thesis by (simp only: round_even_of_int)
next
  case False
  then have lt: "of_int \<lfloor>x\<rfloor> < x" using of_int_floor_le [of x] by linarith
  have up: "x < of_int \<lfloor>x\<rfloor> + 1" by linarith
  have "\<lfloor>- x\<rfloor> = - \<lfloor>x\<rfloor> - 1"
  proof (rule floor_unique)
    have c: "(of_int (- \<lfloor>x\<rfloor> - 1) :: real) = - of_int \<lfloor>x\<rfloor> - 1" by simp
    show "of_int (- \<lfloor>x\<rfloor> - 1) \<le> - x" unfolding c by linarith
    show "- x < of_int (- \<lfloor>x\<rfloor> - 1) + 1" unfolding c using lt by linarith
  qed
  with lt show ?thesis by (auto simp: round_even_def Let_def)
qed


subsection \<open>The exponent of the last place\<close>

lemma ulp_exp_minus [simp]: "ulp_exp (- x) = ulp_exp x"
  by (simp add: ulp_exp_def)

lemma ulp_exp_ge: "- 1074 \<le> ulp_exp x"
  by (simp add: ulp_exp_def)

lemma ulp_exp_mono:
  assumes "0 < x" "x \<le> y"
  shows "ulp_exp x \<le> ulp_exp y"
proof -
  have "log 2 x \<le> log 2 y" using assms by simp
  then have "\<lfloor>log 2 x\<rfloor> \<le> \<lfloor>log 2 y\<rfloor>" by (rule floor_mono)
  with assms show ?thesis by (simp add: ulp_exp_def)
qed

lemma two_powr_add_nat: "(2::real) powr of_int (e + int k) = 2 ^ k * 2 powr of_int e"
  by (simp add: powr_add powr_realpow)

lemma scaled_lt:
  assumes "x \<noteq> 0"
  shows "\<bar>x\<bar> < 2 ^ 53 * 2 powr of_int (ulp_exp x)"
proof -
  have pos: "0 < \<bar>x\<bar>" using assms by simp
  have "\<lfloor>log 2 \<bar>x\<bar>\<rfloor> \<le> ulp_exp x + 52" by (simp add: ulp_exp_def)
  then have "log 2 \<bar>x\<bar> < of_int (ulp_exp x + 53)" by linarith
  then have "\<bar>x\<bar> < 2 powr of_int (ulp_exp x + 53)" using pos by (subst (asm) log_less_iff) simp_all
  then show ?thesis using two_powr_add_nat [of "ulp_exp x" 53] by simp
qed

lemma scaled_ge:
  assumes "x \<noteq> 0" "- 1074 < ulp_exp x"
  shows "2 ^ 52 * 2 powr of_int (ulp_exp x) \<le> \<bar>x\<bar>"
proof -
  have pos: "0 < \<bar>x\<bar>" using assms by simp
  have "\<lfloor>log 2 \<bar>x\<bar>\<rfloor> = ulp_exp x + 52" using assms(2) by (simp add: ulp_exp_def max_def split: if_splits)
  then have "of_int (ulp_exp x + 52) \<le> log 2 \<bar>x\<bar>" by linarith
  then have "2 powr of_int (ulp_exp x + 52) \<le> \<bar>x\<bar>" using pos by (subst (asm) le_log_iff) simp_all
  then show ?thesis using two_powr_add_nat [of "ulp_exp x" 52] by simp
qed


subsection \<open>round_nearest\<close>

lemma round_nearest_0 [simp]: "round_nearest 0 = 0"
  by (simp add: round_nearest_def)

lemma round_nearest_nz:
  "x \<noteq> 0 \<Longrightarrow> round_nearest x = of_int (round_even (x / 2 powr of_int (ulp_exp x))) * 2 powr of_int (ulp_exp x)"
  by (simp add: round_nearest_def Let_def)

lemma round_nearest_minus: "round_nearest (- x) = - round_nearest x"
  by (simp add: round_nearest_def Let_def round_even_minus)

lemma round_nearest_pos_le:
  assumes "0 < x"
  shows "0 \<le> round_nearest x" "round_nearest x \<le> 2 ^ 53 * 2 powr of_int (ulp_exp x)"
proof -
  define q :: real where "q = 2 powr of_int (ulp_exp x)"
  have q: "0 < q" by (simp add: q_def)
  have rn: "round_nearest x = of_int (round_even (x / q)) * q"
    using assms by (simp add: round_nearest_nz q_def)
  have "of_int 0 \<le> x / q" using assms q by simp
  then have "0 \<le> round_even (x / q)" by (rule round_even_ge)
  then show "0 \<le> round_nearest x" using q by (simp add: rn)
  have "x < 2 ^ 53 * q" using scaled_lt [of x] assms by (simp add: q_def)
  then have "x / q \<le> of_int (2 ^ 53)" using q by (simp add: field_simps)
  then have "round_even (x / q) \<le> 2 ^ 53" by (rule round_even_le)
  then have "(of_int (round_even (x / q)) :: real) \<le> of_int (2 ^ 53)" by (simp only: of_int_le_iff)
  then have "of_int (round_even (x / q)) * q \<le> 2 ^ 53 * q" using q by simp
  then show "round_nearest x \<le> 2 ^ 53 * 2 powr of_int (ulp_exp x)" by (simp add: rn q_def)
qed

lemma round_nearest_pos_ge:
  assumes "0 < x" "- 1074 < ulp_exp x"
  shows "2 ^ 52 * 2 powr of_int (ulp_exp x) \<le> round_nearest x"
proof -
  define q :: real where "q = 2 powr of_int (ulp_exp x)"
  have q: "0 < q" by (simp add: q_def)
  have rn: "round_nearest x = of_int (round_even (x / q)) * q"
    using assms by (simp add: round_nearest_nz q_def)
  have "2 ^ 52 * q \<le> x" using scaled_ge [of x] assms by (simp add: q_def)
  then have "of_int (2 ^ 52) \<le> x / q" using q by (simp add: field_simps)
  then have "2 ^ 52 \<le> round_even (x / q)" by (rule round_even_ge)
  then have "(of_int (2 ^ 52) :: real) \<le> of_int (round_even (x / q))" by (simp only: of_int_le_iff)
  then have "2 ^ 52 * q \<le> of_int (round_even (x / q)) * q" using q by simp
  then show ?thesis by (simp add: rn q_def)
qed

lemma round_nearest_mono_pos:
  assumes "0 < x" "x \<le> y"
  shows "round_nearest x \<le> round_nearest y"
proof -
  have y: "0 < y" using assms by simp
  have le: "ulp_exp x \<le> ulp_exp y" using assms by (rule ulp_exp_mono)
  show ?thesis
  proof (cases "ulp_exp x = ulp_exp y")
    case True
    define q :: real where "q = 2 powr of_int (ulp_exp y)"
    have q: "0 < q" by (simp add: q_def)
    have "x / q \<le> y / q" using assms q by (simp add: divide_right_mono)
    then have "round_even (x / q) \<le> round_even (y / q)" by (rule round_even_mono)
    then have "(of_int (round_even (x / q)) :: real) \<le> of_int (round_even (y / q))" by (simp only: of_int_le_iff)
    then have "of_int (round_even (x / q)) * q \<le> of_int (round_even (y / q)) * q" using q by simp
    then show ?thesis using assms y True by (simp add: round_nearest_nz q_def)
  next
    case False
    with le have lt: "ulp_exp x + 1 \<le> ulp_exp y" by simp
    with ulp_exp_ge [of x] have "- 1074 < ulp_exp y" by linarith
    from round_nearest_pos_ge [OF y this] have g: "2 ^ 52 * 2 powr of_int (ulp_exp y) \<le> round_nearest y" .
    have p1: "(2::real) powr of_int (ulp_exp x + 1) \<le> 2 powr of_int (ulp_exp y)"
      using lt by simp
    have p2: "(2::real) powr of_int (ulp_exp x + 1) = 2 * 2 powr of_int (ulp_exp x)" by (simp add: powr_add)
    have "(2::real) ^ 53 * 2 powr of_int (ulp_exp x) = 2 ^ 52 * (2 * 2 powr of_int (ulp_exp x))" by simp
    also have "\<dots> \<le> 2 ^ 52 * 2 powr of_int (ulp_exp y)"
      using p1 unfolding p2 by (intro mult_left_mono) simp_all
    finally have "(2::real) ^ 53 * 2 powr of_int (ulp_exp x) \<le> 2 ^ 52 * 2 powr of_int (ulp_exp y)" .
    with round_nearest_pos_le(2) [OF assms(1)] g show ?thesis by linarith
  qed
qed

lemma round_nearest_mono:
  assumes "x \<le> y"
  shows "round_nearest x \<le> round_nearest y"
proof -
  consider "0 < x" | "x \<le> 0" "0 \<le> y" | "y < 0" by linarith
  then show ?thesis
  proof cases
    case 1
    then show ?thesis using assms by (rule round_nearest_mono_pos)
  next
    case 2
    have "round_nearest x \<le> 0"
    proof (cases "x = 0")
      case True then show ?thesis by simp
    next
      case False
      with 2 have "0 < - x" by simp
      from round_nearest_pos_le(1) [OF this] show ?thesis by (simp add: round_nearest_minus)
    qed
    moreover have "0 \<le> round_nearest y"
    proof (cases "y = 0")
      case True then show ?thesis by simp
    next
      case False
      with 2 have "0 < y" by simp
      then show ?thesis by (rule round_nearest_pos_le(1))
    qed
    ultimately show ?thesis by linarith
  next
    case 3
    then have "0 < - y" "- y \<le> - x" using assms by simp_all
    from round_nearest_mono_pos [OF this] show ?thesis by (simp add: round_nearest_minus)
  qed
qed

lemma overflow_threshold_pos: "0 < overflow_threshold"
  by (simp add: overflow_threshold_def)

lemma round64_not_NaN: "round64 x \<noteq> NaN"
  using overflow_threshold_pos by (cases "x = 0") (auto simp: round64_def inf_of_sign_def)

lemma round_nearest_sign: "0 < x \<Longrightarrow> 0 \<le> round_nearest x" "x < 0 \<Longrightarrow> round_nearest x \<le> 0"
  using round_nearest_mono [of 0 x] round_nearest_mono [of x 0] by simp_all

lemma round64_cases:
  obtains (pinf) "0 < x" "overflow_threshold \<le> round_nearest x" "round64 x = PInf"
  | (ninf) "x < 0" "round_nearest x \<le> - overflow_threshold" "round64 x = NInf"
  | (fin) "- overflow_threshold < round_nearest x" "round_nearest x < overflow_threshold" "round64 x = Fin (round_nearest x)"
proof -
  consider "overflow_threshold \<le> round_nearest x" | "round_nearest x \<le> - overflow_threshold"
    | "- overflow_threshold < round_nearest x" "round_nearest x < overflow_threshold" by linarith
  then show thesis
  proof cases
    case 1
    have "0 < x"
    proof (rule ccontr)
      assume "\<not> 0 < x"
      then consider "x = 0" | "x < 0" by linarith
      then show False
      proof cases
        case 1 with \<open>overflow_threshold \<le> round_nearest x\<close> overflow_threshold_pos show False by simp
      next
        case 2 from round_nearest_sign(2) [OF 2] \<open>overflow_threshold \<le> round_nearest x\<close> overflow_threshold_pos show False by linarith
      qed
    qed
    moreover from 1 overflow_threshold_pos have "overflow_threshold \<le> \<bar>round_nearest x\<bar>" by linarith
    ultimately have "round64 x = PInf" by (simp add: round64_def inf_of_sign_def)
    with \<open>0 < x\<close> 1 show thesis by (rule pinf)
  next
    case 2
    have "x < 0"
    proof (rule ccontr)
      assume "\<not> x < 0"
      then consider "x = 0" | "0 < x" by linarith
      then show False
      proof cases
        case 1 with \<open>round_nearest x \<le> - overflow_threshold\<close> overflow_threshold_pos show False by simp
      next
        case 2 from round_nearest_sign(1) [OF 2] \<open>round_nearest x \<le> - overflow_threshold\<close> overflow_threshold_pos show False by linarith
      qed
    qed
    moreover from 2 overflow_threshold_pos have "overflow_threshold \<le> \<bar>round_nearest x\<bar>" by linarith
    ultimately have "round64 x = NInf" by (simp add: round64_def inf_of_sign_def)
    with \<open>x < 0\<close> 2 show thesis by (rule ninf)
  next
    case 3
    then have "\<not> overflow_threshold \<le> \<bar>round_nearest x\<bar>" by linarith
    then have "round64 x = Fin (round_nearest x)" by (simp add: round64_def)
    with 3 show thesis by (rule fin)
  qed
qed

lemma round64_mono:
  assumes "x \<le> y"
  shows "fle (round64 x) (round64 y)"
proof -
  have m: "round_nearest x \<le> round_nearest y" using assms by (rule round_nearest_mono)
  show ?thesis
  proof (cases x rule: round64_cases)
    case pinf
    with m have "overflow_threshold \<le> round_nearest y" by linarith
    then have "round64 y = PInf" by (cases y rule: round64_cases) (use overflow_threshold_pos in auto)
    with pinf show ?thesis by (simp add: fle_def)
  next
    case ninf
    then show ?thesis using round64_not_NaN [of y] by (cases "round64 y") (simp_all add: fle_def)
  next
    case fin
    show ?thesis
    proof (cases y rule: round64_cases)
      case pinf
      with fin show ?thesis by (simp add: fle_def)
    next
      case ninf
      with m fin show ?thesis by linarith
    next
      case fin2: fin
      with fin m show ?thesis by (auto simp: fle_def)
    qed
  qed
qed


subsection \<open>Representable values\<close>

lemma two_powr_int_diff:
  assumes "e' \<le> e"
  shows "(2::real) powr of_int e / 2 powr of_int e' = 2 ^ nat (e - e')"
proof -
  have "(2::real) powr of_int e / 2 powr of_int e' = 2 powr (of_int e - of_int e')"
    by (simp add: powr_diff)
  also have "of_int e - of_int e' = (real (nat (e - e')))" using assms by simp
  also have "(2::real) powr real (nat (e - e')) = 2 ^ nat (e - e')" by (simp add: powr_realpow)
  finally show ?thesis .
qed

lemma ulp_exp_le:
  assumes "x \<noteq> 0" "\<bar>x\<bar> < 2 ^ 53 * 2 powr of_int e" "- 1074 \<le> e"
  shows "ulp_exp x \<le> e"
proof -
  have pos: "0 < \<bar>x\<bar>" using assms(1) by simp
  have "\<bar>x\<bar> < 2 powr of_int (e + 53)" using assms(2) two_powr_add_nat [of e 53] by simp
  then have "log 2 \<bar>x\<bar> < of_int (e + 53)" using pos by (subst log_less_iff) simp_all
  then have "\<lfloor>log 2 \<bar>x\<bar>\<rfloor> < e + 53" by (simp only: floor_less_iff)
  with assms(3) show ?thesis unfolding ulp_exp_def by linarith
qed

lemma round_nearest_exact_lt:
  assumes x: "x = of_int m * 2 powr of_int e"
    and m: "\<bar>m\<bar> < 2 ^ 53"
    and e: "- 1074 \<le> e"
  shows "round_nearest x = x"
proof (cases "x = 0")
  case True
  then show ?thesis by simp
next
  case False
  have "\<bar>x\<bar> = of_int \<bar>m\<bar> * 2 powr of_int e" unfolding x by (simp add: abs_mult)
  also have "\<dots> < 2 ^ 53 * 2 powr of_int e"
  proof -
    have "(of_int \<bar>m\<bar> :: real) < of_int (2 ^ 53)" using m by (simp only: of_int_less_iff)
    then show ?thesis by simp
  qed
  finally have le: "ulp_exp x \<le> e" using False e by (intro ulp_exp_le)
  define q :: real where "q = 2 powr of_int (ulp_exp x)"
  have qpos: "0 < q" by (simp add: q_def)
  have "x / q = of_int m * (2 powr of_int e / 2 powr of_int (ulp_exp x))"
    unfolding x q_def by simp
  also have "\<dots> = of_int (m * 2 ^ nat (e - ulp_exp x))"
    by (simp only: two_powr_int_diff [OF le]) simp
  finally have i: "x / q = of_int (m * 2 ^ nat (e - ulp_exp x))" .
  have "of_int (round_even (x / q)) * q = x / q * q"
    by (simp only: i round_even_of_int)
  also have "\<dots> = x" using qpos by simp
  finally show ?thesis using False by (simp add: round_nearest_nz q_def)
qed

lemma round_nearest_exact:
  assumes x: "x = of_int m * 2 powr of_int e"
    and m: "\<bar>m\<bar> \<le> 2 ^ 53"
    and e: "- 1074 \<le> e"
  shows "round_nearest x = x"
proof (cases "\<bar>m\<bar> < 2 ^ 53")
  case True
  with x e show ?thesis by (intro round_nearest_exact_lt [of x m e])
next
  case False
  with m have "m = 2 ^ 53 \<or> m = - (2 ^ 53)" by linarith
  then obtain m' :: int where m': "m = 2 * m'" "\<bar>m'\<bar> < 2 ^ 53" by auto
  have "x = of_int m' * 2 powr of_int (e + 1)"
    unfolding x m'(1) by (simp add: powr_add)
  from round_nearest_exact_lt [OF this m'(2)] e show ?thesis by simp
qed

lemma round_nearest_repr:
  "\<exists>m e. round_nearest x = of_int m * 2 powr of_int e \<and> \<bar>m\<bar> \<le> 2 ^ 53 \<and> - 1074 \<le> e"
proof (cases "x = 0")
  case True
  then show ?thesis by (intro exI [of _ 0] exI [of _ "- 1074"]) simp
next
  case False
  define q :: real where "q = 2 powr of_int (ulp_exp x)"
  have q: "0 < q" by (simp add: q_def)
  have "\<bar>x\<bar> < 2 ^ 53 * q" using scaled_lt [OF False] by (simp add: q_def)
  then have "x / q \<le> of_int (2 ^ 53)" "of_int (- (2 ^ 53)) \<le> x / q"
    using q by (simp_all add: field_simps abs_less_iff)
  then have "round_even (x / q) \<le> 2 ^ 53" "- (2 ^ 53) \<le> round_even (x / q)"
    by (auto intro: round_even_le round_even_ge)
  then have "\<bar>round_even (x / q)\<bar> \<le> 2 ^ 53" by linarith
  then show ?thesis using False ulp_exp_ge [of x]
    by (intro exI [of _ "round_even (x / q)"] exI [of _ "ulp_exp x"]) (simp add: round_nearest_nz q_def)
qed

lemma round_nearest_idem: "round_nearest (round_nearest x) = round_nearest x"
proof -
  from round_nearest_repr [of x] obtain m e where
    "round_nearest x = of_int m * 2 powr of_int e" "\<bar>m\<bar> \<le> 2 ^ 53" "- 1074 \<le> e" by blast
  then show ?thesis by (rule round_nearest_exact)
qed

lemma is_float64_iff: "is_float64 x \<longleftrightarrow> round_nearest x = x \<and> \<bar>x\<bar> < overflow_threshold"
proof
  assume "is_float64 x"
  then have r: "round64 x = Fin x" by (simp add: is_float64_def)
  then show "round_nearest x = x \<and> \<bar>x\<bar> < overflow_threshold"
    by (cases x rule: round64_cases) auto
next
  assume "round_nearest x = x \<and> \<bar>x\<bar> < overflow_threshold"
  then show "is_float64 x" by (simp add: is_float64_def round64_def)
qed

lemma round64_is_float64: "round64 x = Fin y \<Longrightarrow> is_float64 y"
proof -
  assume r: "round64 x = Fin y"
  then have "y = round_nearest x" "\<bar>round_nearest x\<bar> < overflow_threshold"
    by (cases x rule: round64_cases; auto)+
  then show ?thesis by (simp add: is_float64_iff round_nearest_idem)
qed

lemma is_float64_double:
  assumes "is_float64 a" "\<bar>2 * a\<bar> < overflow_threshold"
  shows "is_float64 (2 * a)"
proof -
  from assms(1) have a: "round_nearest a = a" by (simp add: is_float64_iff)
  from round_nearest_repr [of a] obtain m e where
    r: "a = of_int m * 2 powr of_int e" "\<bar>m\<bar> \<le> 2 ^ 53" "- 1074 \<le> e" unfolding a by blast
  have "2 * a = of_int m * 2 powr of_int (e + 1)" unfolding r(1) by (simp add: powr_add)
  from round_nearest_exact [OF this r(2)] r(3) have "round_nearest (2 * a) = 2 * a" by simp
  with assms(2) show ?thesis by (simp add: is_float64_iff)
qed

subsection \<open>Evaluating round64\<close>

lemma round64_exact:
  assumes "x = of_int m * 2 powr of_int e" "\<bar>m\<bar> \<le> 2 ^ 53" "- 1074 \<le> e" "\<bar>x\<bar> < overflow_threshold"
  shows "round64 x = Fin x"
  using round_nearest_exact [OF assms(1-3)] assms(4) by (simp add: round64_def)

lemma round64_of_int: "\<bar>n\<bar> \<le> 2 ^ 53 \<Longrightarrow> round64 (of_int n) = Fin (of_int n)"
proof -
  assume n: "\<bar>n\<bar> \<le> 2 ^ 53"
  then have "(of_int \<bar>n\<bar> :: real) \<le> of_int (2 ^ 53)" by (simp only: of_int_le_iff)
  then have "\<bar>of_int n :: real\<bar> < overflow_threshold" by (simp add: overflow_threshold_def)
  with n show ?thesis by (intro round64_exact [of _ n 0]) simp_all
qed

lemma round64_numeral: "numeral k \<le> (2::int) ^ 53 \<Longrightarrow> round64 (numeral k) = Fin (numeral k)"
  using round64_of_int [of "numeral k"] by simp

lemma round64_neg_numeral: "numeral k \<le> (2::int) ^ 53 \<Longrightarrow> round64 (- numeral k) = Fin (- numeral k)"
  using round64_of_int [of "- numeral k"] by simp

lemma round64_pow2:
  assumes "\<bar>m\<bar> \<le> 2 ^ 53" "\<bar>of_int m * 2 ^ k\<bar> < overflow_threshold"
  shows "round64 (of_int m * 2 ^ k) = Fin (of_int m * 2 ^ k)"
proof -
  have "(of_int m * 2 ^ k :: real) = of_int m * 2 powr of_int (int k)" by (simp add: powr_realpow)
  from round64_exact [OF this assms(1)] assms(2) show ?thesis by simp
qed

lemma round64_pow2_overflow:
  assumes "\<bar>m\<bar> \<le> 2 ^ 53" "overflow_threshold \<le> of_int m * 2 ^ k"
  shows "round64 (of_int m * 2 ^ k) = PInf"
proof -
  have "(of_int m * 2 ^ k :: real) = of_int m * 2 powr of_int (int k)" by (simp add: powr_realpow)
  from round_nearest_exact [OF this assms(1)] have "round_nearest (of_int m * 2 ^ k) = of_int m * 2 ^ k" by simp
  with assms(2) overflow_threshold_pos show ?thesis
    by (cases "of_int m * 2 ^ k :: real" rule: round64_cases) auto
qed

lemma two_powr_neg: "(2::real) powr of_int (- int k) = 1 / 2 ^ k"
  by (simp add: powr_minus powr_realpow inverse_eq_divide)

lemma ulp_exp_normal:
  assumes "x \<noteq> 0" "2 ^ 52 * 2 powr of_int e \<le> \<bar>x\<bar>" "\<bar>x\<bar> < 2 ^ 53 * 2 powr of_int e" "- 1074 \<le> e"
  shows "ulp_exp x = e"
proof -
  have pos: "0 < \<bar>x\<bar>" using assms(1) by simp
  have "2 powr of_int (e + 52) \<le> \<bar>x\<bar>" using assms(2) two_powr_add_nat [of e 52] by simp
  then have "of_int (e + 52) \<le> log 2 \<bar>x\<bar>" using pos by (subst le_log_iff) simp_all
  moreover have "\<bar>x\<bar> < 2 powr of_int (e + 53)" using assms(3) two_powr_add_nat [of e 53] by simp
  then have "log 2 \<bar>x\<bar> < of_int (e + 53)" using pos by (subst log_less_iff) simp_all
  ultimately have "\<lfloor>log 2 \<bar>x\<bar>\<rfloor> = e + 52" by (intro floor_unique) simp_all
  with assms(4) show ?thesis by (simp add: ulp_exp_def)
qed

lemma round64_scaled:
  assumes lo: "2 ^ 52 \<le> \<bar>x\<bar> * 2 ^ k"
    and hi: "\<bar>x\<bar> * 2 ^ k < 2 ^ 53"
    and k: "k \<le> 1074"
    and m: "\<bar>x * 2 ^ k - of_int m\<bar> < 1 / 2"
  shows "round64 x = Fin (of_int m / 2 ^ k)"
proof -
  have x0: "x \<noteq> 0" using lo by auto
  have p: "(0::real) < 2 ^ k" by simp
  have e: "ulp_exp x = - int k"
  proof (rule ulp_exp_normal [OF x0])
    show "2 ^ 52 * 2 powr of_int (- int k) \<le> \<bar>x\<bar>"
      using lo p by (simp only: two_powr_neg) (simp add: field_simps)
    show "\<bar>x\<bar> < 2 ^ 53 * 2 powr of_int (- int k)"
      using hi p by (simp only: two_powr_neg) (simp add: field_simps)
    show "- 1074 \<le> - int k" using k by simp
  qed
  have r: "round_even (x / (1 / 2 ^ k)) = m"
    by (rule round_even_eqI) (use m in simp)
  have rn: "round_nearest x = of_int m / 2 ^ k"
    using x0 r by (simp add: round_nearest_nz e two_powr_neg del: of_int_minus)
  have "\<bar>of_int m\<bar> < \<bar>x * 2 ^ k\<bar> + 1" using m by linarith
  also have "\<dots> < 2 ^ 53 + 1" using hi by (simp add: abs_mult)
  finally have mb: "\<bar>of_int m :: real\<bar> < 2 ^ 53 + 1" .
  have "\<bar>of_int m / 2 ^ k\<bar> = \<bar>of_int m :: real\<bar> / 2 ^ k" by simp
  also have "\<dots> \<le> \<bar>of_int m :: real\<bar>" by (simp add: field_simps mult_le_cancel_left1 abs_ge_zero)
  also have "\<dots> < overflow_threshold" using mb by (simp add: overflow_threshold_def)
  finally have b: "\<bar>of_int m / 2 ^ k\<bar> < overflow_threshold" .
  then show ?thesis by (simp add: round64_def rn)
qed

lemma round64_dyadic:
  assumes "\<bar>m\<bar> \<le> 2 ^ 53" "k \<le> 1074"
  shows "round64 (of_int m / 2 ^ k) = Fin (of_int m / 2 ^ k)"
proof -
  have x: "(of_int m / 2 ^ k :: real) = of_int m * 2 powr of_int (- int k)"
    by (simp only: two_powr_neg) simp
  have "\<bar>of_int m / 2 ^ k\<bar> = \<bar>of_int m :: real\<bar> / 2 ^ k" by simp
  also have "\<dots> \<le> \<bar>of_int m :: real\<bar>" by (simp add: field_simps mult_le_cancel_left1 abs_ge_zero)
  also have "\<dots> = of_int \<bar>m\<bar>" by simp
  also have "\<dots> \<le> of_int (2 ^ 53)" using assms(1) by (simp only: of_int_le_iff)
  also have "\<dots> < overflow_threshold" by (simp add: overflow_threshold_def)
  finally have "\<bar>of_int m / 2 ^ k :: real\<bar> < overflow_threshold" .
  with round64_exact [OF x assms(1)] assms(2) show ?thesis by simp
qed

lemma round64_tiny:
  assumes "\<bar>x\<bar> * 2 ^ 1075 < 1"
  shows "round64 x = Fin 0"
proof (cases "x = 0")
  case True
  then show ?thesis using overflow_threshold_pos by (simp add: round64_def)
next
  case False
  have q: "(2::real) powr of_int (- 1074) = 1 / 2 ^ 1074"
    using two_powr_neg [of 1074] by simp
  have h: "\<bar>x\<bar> * 2 ^ 1074 < 1 / 2" using assms by simp
  have "\<bar>x\<bar> < 2 ^ 53 * 2 powr of_int (- 1074)"
    unfolding q using h by (simp add: field_simps)
  from ulp_exp_le [OF False this] ulp_exp_ge [of x] have e: "ulp_exp x = - 1074" by simp
  have "round_even (x / (1 / 2 ^ 1074)) = 0"
    by (rule round_even_eqI) (use h in \<open>simp add: abs_mult\<close>)
  then have "round_nearest x = 0" using False by (simp add: round_nearest_nz e q del: of_int_minus)
  then show ?thesis using overflow_threshold_pos by (simp add: round64_def)
qed

lemma is_float64_of_int: "\<bar>n\<bar> \<le> 2 ^ 53 \<Longrightarrow> is_float64 (of_int n)"
  by (simp add: is_float64_def round64_of_int)

subsection \<open>The rounded midpoint of two values\<close>

text \<open>
  Rounding is monotone and keeps the values of \<^verbatim>\<open>float64\<close>, and the double of a value is
  a value unless it overflows. So the midpoint \<open>(a + b) / 2\<close>, rounded after the addition
  and after the division, stays between \<open>a\<close> and \<open>b\<close> when \<open>2 a\<close> and \<open>2 b\<close> do not overflow.
\<close>

lemma fle_Fin_round64:
  assumes "fle (Fin lo) (round64 x)" "fle (round64 x) (Fin hi)"
  obtains s where "round64 x = Fin s" "lo \<le> s" "s \<le> hi"
  using assms by (cases "round64 x") (auto simp: fle_def)

lemma midpoint_in_bracket:
  assumes fa: "is_float64 a" and fb: "is_float64 b" and le: "a \<le> b"
    and ba: "2 * \<bar>a\<bar> < overflow_threshold" and bb: "2 * \<bar>b\<bar> < overflow_threshold"
  shows "\<exists>m. div_f64 (add_f64 (Fin a) (Fin b)) (Fin 2) = Fin m \<and> a \<le> m \<and> m \<le> b \<and> is_float64 m"
proof -
  have "is_float64 (2 * a)" using fa ba by (intro is_float64_double) simp_all
  then have ra: "round64 (2 * a) = Fin (2 * a)" by (simp add: is_float64_def)
  have "is_float64 (2 * b)" using fb bb by (intro is_float64_double) simp_all
  then have rb: "round64 (2 * b) = Fin (2 * b)" by (simp add: is_float64_def)
  have "fle (round64 (2 * a)) (round64 (a + b))" using le by (intro round64_mono) simp
  moreover have "fle (round64 (a + b)) (round64 (2 * b))" using le by (intro round64_mono) simp
  ultimately obtain s where s: "round64 (a + b) = Fin s" "2 * a \<le> s" "s \<le> 2 * b"
    unfolding ra rb by (rule fle_Fin_round64)
  have "fle (round64 a) (round64 (s / 2))" using s(2) by (intro round64_mono) simp
  moreover have "fle (round64 (s / 2)) (round64 b)" using s(3) by (intro round64_mono) simp
  moreover have "round64 a = Fin a" "round64 b = Fin b" using fa fb by (simp_all add: is_float64_def)
  ultimately obtain m where m: "round64 (s / 2) = Fin m" "a \<le> m" "m \<le> b"
    by (metis fle_Fin_round64)
  have "div_f64 (add_f64 (Fin a) (Fin b)) (Fin 2) = Fin m"
    by (simp add: div_f64_def add_f64_def s(1) m(1))
  with m round64_is_float64 [OF m(1)] show ?thesis by blast
qed

section \<open>Properties of the root finder\<close>

lemma quad_root1:
  fixes a b c q :: real
  assumes "a \<noteq> 0" "q * q = b * b - 4 * a * c"
  shows "a * (- (b + q) / (2 * a))\<^sup>2 + b * (- (b + q) / (2 * a)) + c = 0"
proof -
  have "a * (- (b + q) / (2 * a))\<^sup>2 + b * (- (b + q) / (2 * a)) + c
        = ((b + q)\<^sup>2 - 2 * b * (b + q) + 4 * a * c) / (4 * a)"
    using assms(1) by (simp add: field_simps power2_eq_square)
  also have "(b + q)\<^sup>2 - 2 * b * (b + q) + 4 * a * c = q * q - b * b + 4 * a * c"
    by (simp add: power2_eq_square algebra_simps)
  also have "\<dots> = 0" using assms(2) by simp
  finally show ?thesis by simp
qed

lemma quad_root2:
  fixes a b c r :: real
  assumes "a \<noteq> 0" "r \<noteq> 0" "a * r\<^sup>2 + b * r + c = 0"
  shows "a * (c / (a * r))\<^sup>2 + b * (c / (a * r)) + c = 0"
proof -
  have "a * (c / (a * r))\<^sup>2 + b * (c / (a * r)) + c = c * (a * r\<^sup>2 + b * r + c) / (a * r\<^sup>2)"
    using assms(1,2) by (simp add: field_simps power2_eq_square)
  thus ?thesis using assms(3) by simp
qed

lemma signed_sqrt_nz:
  fixes b D :: real
  assumes "0 < D"
  shows "b + (if b < 0 then - sqrt D else sqrt D) \<noteq> 0"
proof -
  have h: "0 < sqrt D" using assms by simp
  show ?thesis
  proof (cases "b < 0")
    case True
    then have "b + - sqrt D < 0" using h by linarith
    then show ?thesis using True by simp
  next
    case False
    then have "0 < b + sqrt D" using h by linarith
    then show ?thesis using False by simp
  qed
qed

lemma root_ok_NaN: "root_ok a b c NaN"
  by (simp add: root_ok_def)

lemma root_ok_clip:
  assumes "a * r\<^sup>2 + b * r + c = 0"
  shows "root_ok a b c (if fle (Fin 1) (Fin r) \<or> flt (Fin r) (Fin 0) then NaN else Fin r)"
  using assms by (auto simp: root_ok_def fle_def)

lemma sq_linear:
  fixes a b c :: real
  assumes "b \<noteq> 0"
  shows "0 * (- c / b)\<^sup>2 + b * (- c / b) + c = 0"
  using assms by simp

lemma sq_noconst:
  fixes a b :: real
  assumes "a \<noteq> 0"
  shows "a * (- b / a)\<^sup>2 + b * (- b / a) + 0 = 0"
  using assms by (simp add: power2_eq_square field_simps)

lemma sq_double:
  fixes a b c :: real
  assumes "a \<noteq> 0" "b * b - 4 * a * c = 0"
  shows "a * (- b / (2 * a))\<^sup>2 + b * (- b / (2 * a)) + c = 0"
  using quad_root1 [of a 0 b c] assms by simp

lemma solve_general:
  fixes a b c :: real
  assumes a: "a \<noteq> 0" and c: "c \<noteq> 0" and D: "0 < b * b - 4 * a * c"
  defines "q \<equiv> (if b < 0 then - sqrt (b * b - 4 * a * c) else sqrt (b * b - 4 * a * c))"
  defines "r1 \<equiv> - (b + q) / (2 * a)"
  defines "r2 \<equiv> c / (a * r1)"
  shows "solveQuadraticFormula (Fin a) (Fin b) (Fin c) =
           (let (y1, y2) = (if r2 < r1 then (r2, r1) else (r1, r2)) in
            ((if fle (Fin 1) (Fin y1) \<or> flt (Fin y1) (Fin 0) then NaN else Fin y1),
             (if fle (Fin 1) (Fin y2) \<or> flt (Fin y2) (Fin 0) then NaN else Fin y2)))"
    and "a * r1\<^sup>2 + b * r1 + c = 0" and "a * r2\<^sup>2 + b * r2 + c = 0"
proof -
  have qq: "q * q = b * b - 4 * a * c"
    using D by (simp add: q_def)
  have bq: "b + q \<noteq> 0"
    unfolding q_def using signed_sqrt_nz [OF D, of b] by simp
  have r1: "r1 \<noteq> 0" using bq a by (simp add: r1_def)
  have ar1: "a * r1 \<noteq> 0" using a r1 by simp
  show e1: "a * r1\<^sup>2 + b * r1 + c = 0"
    unfolding r1_def using quad_root1 [OF a qq] .
  show "a * r2\<^sup>2 + b * r2 + c = 0"
    unfolding r2_def using quad_root2 [OF a r1 e1] .
  have nD: "\<not> b * b - 4 * a * c < 0" "b * b - 4 * a * c \<noteq> 0" using D by auto
  have h1: "feq (Fin a) (Fin 0) = False" "feq (Fin c) (Fin 0) = False"
    using a c by simp_all
  have h3: "fsub (fmul (Fin b) (Fin b)) (fmul (fmul (Fin 4) (Fin a)) (Fin c)) = Fin (b * b - 4 * a * c)"
    by (simp add: fsub_def)
  have h4: "flt (Fin (b * b - 4 * a * c)) (Fin 0) = False" "feq (Fin (b * b - 4 * a * c)) (Fin 0) = False"
    using nD by simp_all
  have fq: "(if flt (Fin b) (Fin 0) then fneg (fsqrt (Fin (b * b - 4 * a * c)))
             else fsqrt (Fin (b * b - 4 * a * c))) = Fin q"
    using nD by (simp add: q_def)
  have fx1: "fdiv (fneg (fadd (Fin b) (Fin q))) (fmul (Fin 2) (Fin a)) = Fin r1"
    using a by (simp add: r1_def)
  have fx2: "fdiv (Fin c) (fmul (Fin a) (Fin r1)) = Fin r2"
    using ar1 by (simp add: r2_def)
  have sw: "(if fgt (Fin r1) (Fin r2) then (Fin r2, Fin r1) else (Fin r1, Fin r2))
            = (if r2 < r1 then (Fin r2, Fin r1) else (Fin r1, Fin r2))"
    by (simp add: fgt_def)
  show "solveQuadraticFormula (Fin a) (Fin b) (Fin c) =
           (let (y1, y2) = (if r2 < r1 then (r2, r1) else (r1, r2)) in
            ((if fle (Fin 1) (Fin y1) \<or> flt (Fin y1) (Fin 0) then NaN else Fin y1),
             (if fle (Fin 1) (Fin y2) \<or> flt (Fin y2) (Fin 0) then NaN else Fin y2)))"
    unfolding solveQuadraticFormula_def Let_def h1 h3 h4 fq fx1 fx2 sw
    by (simp only: if_False split: if_split) simp
qed



lemma solveQuadraticFormula_roots_finite:
  assumes "solveQuadraticFormula (Fin a) (Fin b) (Fin c) = (x1, x2)"
  shows "(\<forall>x \<in> {x1, x2}. x \<noteq> NaN \<longrightarrow>
            (\<exists>r. x = Fin r \<and> 0 \<le> r \<and> r < 1 \<and> a * r\<^sup>2 + b * r + c = 0))
         \<and> (x1 \<noteq> NaN \<and> x2 \<noteq> NaN \<longrightarrow> fle x1 x2)"
proof -
  have goal: "root_ok a b c x1 \<and> root_ok a b c x2 \<and> (x1 \<noteq> NaN \<and> x2 \<noteq> NaN \<longrightarrow> fle x1 x2)"
  proof (cases "a = 0")
    case a0: True
    show ?thesis
    proof (cases "b = 0")
      case True
      with a0 assms show ?thesis
        by (auto simp: solveQuadraticFormula_def root_ok_def split: if_splits)
    next
      case False
      have "x1 = (if fle (Fin 1) (Fin (- c / b)) \<or> flt (Fin (- c / b)) (Fin 0) then NaN else Fin (- c / b))"
        and "x2 = NaN"
        using assms a0 False by (auto simp: solveQuadraticFormula_def Let_def)
      then show ?thesis
        using root_ok_clip [OF sq_linear [OF False, of c], of ] a0 by (simp add: root_ok_NaN)
    qed
  next
    case an: False
    show ?thesis
    proof (cases "c = 0")
      case True
      have x1: "x1 = Fin 0"
        and x2: "x2 = (if fle (Fin 1) (Fin (- b / a)) \<or> flt (Fin (- b / a)) (Fin 0) then NaN else Fin (- b / a))"
        using assms an True by (auto simp: solveQuadraticFormula_def Let_def)
      have "root_ok a b c x1" using x1 True by (simp add: root_ok_def)
      moreover have "root_ok a b c x2"
        using root_ok_clip [OF sq_noconst [OF an, of b]] x2 True by simp
      moreover have "x2 \<noteq> NaN \<longrightarrow> fle x1 x2"
        using x1 x2 by (auto simp: fle_Fin split: if_splits)
      ultimately show ?thesis by simp
    next
      case cn: False
      consider (neg) "b * b - 4 * a * c < 0" | (zero) "b * b - 4 * a * c = 0" | (pos) "0 < b * b - 4 * a * c"
        by linarith
      then show ?thesis
      proof cases
        case neg
        then have "x1 = NaN" "x2 = NaN"
          using assms an cn by (auto simp: solveQuadraticFormula_def Let_def fsub_def)
        then show ?thesis by (simp add: root_ok_NaN)
      next
        case zero
        then have x1: "x1 = (if fle (Fin 1) (Fin (- b / (2 * a))) \<or> flt (Fin (- b / (2 * a))) (Fin 0) then NaN else Fin (- b / (2 * a)))"
          and x2: "x2 = NaN"
          using assms an cn by (auto simp: solveQuadraticFormula_def Let_def fsub_def)
        show ?thesis
          using root_ok_clip [OF sq_double [OF an zero]] x1 x2 by (simp add: root_ok_NaN)
      next
        case pos
        note g = solve_general [OF an cn pos]
        define q where "q = (if b < 0 then - sqrt (b * b - 4 * a * c) else sqrt (b * b - 4 * a * c))"
        define r1 where "r1 = - (b + q) / (2 * a)"
        define r2 where "r2 = c / (a * r1)"
        have e1: "a * r1\<^sup>2 + b * r1 + c = 0" and e2: "a * r2\<^sup>2 + b * r2 + c = 0"
          using g(2,3) by (simp_all add: q_def r1_def r2_def)
        have res: "(x1, x2) = (let (y1, y2) = (if r2 < r1 then (r2, r1) else (r1, r2)) in
            ((if fle (Fin 1) (Fin y1) \<or> flt (Fin y1) (Fin 0) then NaN else Fin y1),
             (if fle (Fin 1) (Fin y2) \<or> flt (Fin y2) (Fin 0) then NaN else Fin y2)))"
          using g(1) assms by (simp add: q_def r1_def r2_def)
        show ?thesis
        proof (cases "r2 < r1")
          case True
          with res have x1: "x1 = (if fle (Fin 1) (Fin r2) \<or> flt (Fin r2) (Fin 0) then NaN else Fin r2)"
            and x2: "x2 = (if fle (Fin 1) (Fin r1) \<or> flt (Fin r1) (Fin 0) then NaN else Fin r1)"
            by simp_all
          have "root_ok a b c x1" unfolding x1 by (rule root_ok_clip [OF e2])
          moreover have "root_ok a b c x2" unfolding x2 by (rule root_ok_clip [OF e1])
          moreover have "x1 \<noteq> NaN \<and> x2 \<noteq> NaN \<longrightarrow> fle x1 x2"
            using True x1 x2 by (auto simp: fle_Fin split: if_splits)
          ultimately show ?thesis by simp
        next
          case False
          with res have x1: "x1 = (if fle (Fin 1) (Fin r1) \<or> flt (Fin r1) (Fin 0) then NaN else Fin r1)"
            and x2: "x2 = (if fle (Fin 1) (Fin r2) \<or> flt (Fin r2) (Fin 0) then NaN else Fin r2)"
            by simp_all
          have "root_ok a b c x1" unfolding x1 by (rule root_ok_clip [OF e1])
          moreover have "root_ok a b c x2" unfolding x2 by (rule root_ok_clip [OF e2])
          moreover have "x1 \<noteq> NaN \<and> x2 \<noteq> NaN \<longrightarrow> fle x1 x2"
            using False x1 x2 by (auto simp: fle_Fin split: if_splits)
          ultimately show ?thesis by simp
        qed
      qed
    qed
  qed
  then show ?thesis by (simp add: root_ok_def)
qed


lemma in_unit_clip: "in_unit (if fle (Fin 1) x \<or> flt x (Fin 0) then NaN else x)"
  by (cases x) (auto simp: in_unit_def fle_def)

lemma in_unit_simps [simp]: "in_unit NaN" "in_unit (Fin 0)"
  by (simp_all add: in_unit_def)

lemma clip_order:
  assumes "\<not> flt y x"
  shows "(if fle (Fin 1) x \<or> flt x (Fin 0) then NaN else x) = NaN
       \<or> (if fle (Fin 1) y \<or> flt y (Fin 0) then NaN else y) = NaN
       \<or> fle (if fle (Fin 1) x \<or> flt x (Fin 0) then NaN else x)
              (if fle (Fin 1) y \<or> flt y (Fin 0) then NaN else y)"
  using assms by (cases x; cases y) (auto simp: fle_def)

lemma clip_order_zero:
  "(if fle (Fin 1) y \<or> flt y (Fin 0) then NaN else y) = NaN
       \<or> fle (Fin 0) (if fle (Fin 1) y \<or> flt y (Fin 0) then NaN else y)"
  by (cases y) (auto simp: fle_def)

lemma flt_asym: "flt x y \<Longrightarrow> \<not> flt y x"
  by (cases x; cases y) auto

lemma solve_range_all:
  assumes "solveQuadraticFormula a b c = (x1, x2)"
  shows "in_unit x1 \<and> in_unit x2 \<and> (x1 = NaN \<or> x2 = NaN \<or> fle x1 x2)"
proof (cases "feq a (Fin 0)")
  case a0: True
  show ?thesis
  proof (cases "feq b (Fin 0)")
    case True
    with a0 assms show ?thesis
      by (cases "feq c (Fin 0)") (auto simp: solveQuadraticFormula_def)
  next
    case False
    with a0 assms have "x1 = (if fle (Fin 1) (fdiv (fneg c) b) \<or> flt (fdiv (fneg c) b) (Fin 0) then NaN else fdiv (fneg c) b)" "x2 = NaN"
      by (auto simp: solveQuadraticFormula_def Let_def)
    then show ?thesis using in_unit_clip [of "fdiv (fneg c) b"] by simp
  qed
next
  case an: False
  show ?thesis
  proof (cases "feq c (Fin 0)")
    case True
    with an assms have "x1 = Fin 0"
      "x2 = (if fle (Fin 1) (fdiv (fneg b) a) \<or> flt (fdiv (fneg b) a) (Fin 0) then NaN else fdiv (fneg b) a)"
      by (auto simp: solveQuadraticFormula_def Let_def)
    then show ?thesis
      using in_unit_clip [of "fdiv (fneg b) a"] clip_order_zero [of "fdiv (fneg b) a"] by simp
  next
    case cn: False
    define D where "D = fsub (fmul b b) (fmul (fmul (Fin 4) a) c)"
    show ?thesis
    proof (cases "flt D (Fin 0)")
      case True
      with an cn assms show ?thesis by (simp add: solveQuadraticFormula_def Let_def D_def)
    next
      case Dn: False
      show ?thesis
      proof (cases "feq D (Fin 0)")
        case True
        with an cn Dn assms have
          "x1 = (if fle (Fin 1) (fdiv (fneg b) (fmul (Fin 2) a)) \<or> flt (fdiv (fneg b) (fmul (Fin 2) a)) (Fin 0)
                 then NaN else fdiv (fneg b) (fmul (Fin 2) a))" "x2 = NaN"
          by (auto simp: solveQuadraticFormula_def Let_def D_def)
        then show ?thesis using in_unit_clip [of "fdiv (fneg b) (fmul (Fin 2) a)"] by simp
      next
        case Dz: False
        define q where "q = (if flt b (Fin 0) then fneg (fsqrt D) else fsqrt D)"
        define u where "u = fdiv (fneg (fadd b q)) (fmul (Fin 2) a)"
        define v where "v = fdiv c (fmul a u)"
        have sol: "solveQuadraticFormula a b c =
            (let (x1, x2) = (if fgt u v then (v, u) else (u, v));
                 x1 = (if fle (Fin 1) x1 \<or> flt x1 (Fin 0) then NaN else x1);
                 x2 = (if fle (Fin 1) x2 \<or> flt x2 (Fin 0) then NaN else x2)
             in (x1, x2))"
          unfolding solveQuadraticFormula_def D_def [symmetric]
          using an cn Dn Dz by (simp add: Let_def q_def u_def v_def)
        show ?thesis
        proof (cases "fgt u v")
          case True
          then have "\<not> flt u v" by (simp add: fgt_def flt_asym)
          from clip_order [OF this] True assms show ?thesis
            unfolding sol by (auto simp: in_unit_clip Let_def)
        next
          case False
          then have "\<not> flt v u" by (simp add: fgt_def)
          from clip_order [OF this] False assms show ?thesis
            unfolding sol by (auto simp: in_unit_clip Let_def)
        qed
      qed
    qed
  qed
qed


lemma solve_range_all_f64:
  assumes "solveQuadraticFormula_f64 a b c = (x1, x2)"
  shows "in_unit x1 \<and> in_unit x2 \<and> (x1 = NaN \<or> x2 = NaN \<or> fle x1 x2)"
proof (cases "feq a (Fin 0)")
  case a0: True
  show ?thesis
  proof (cases "feq b (Fin 0)")
    case True
    with a0 assms show ?thesis
      by (cases "feq c (Fin 0)") (auto simp: solveQuadraticFormula_f64_def)
  next
    case False
    with a0 assms have "x1 = (if fle (Fin 1) (div_f64 (fneg c) b) \<or> flt (div_f64 (fneg c) b) (Fin 0) then NaN else div_f64 (fneg c) b)" "x2 = NaN"
      by (auto simp: solveQuadraticFormula_f64_def Let_def)
    then show ?thesis using in_unit_clip [of "div_f64 (fneg c) b"] by simp
  qed
next
  case an: False
  show ?thesis
  proof (cases "feq c (Fin 0)")
    case True
    with an assms have "x1 = Fin 0"
      "x2 = (if fle (Fin 1) (div_f64 (fneg b) a) \<or> flt (div_f64 (fneg b) a) (Fin 0) then NaN else div_f64 (fneg b) a)"
      by (auto simp: solveQuadraticFormula_f64_def Let_def)
    then show ?thesis
      using in_unit_clip [of "div_f64 (fneg b) a"] clip_order_zero [of "div_f64 (fneg b) a"] by simp
  next
    case cn: False
    define D where "D = sub_f64 (mul_f64 b b) (mul_f64 (mul_f64 (Fin 4) a) c)"
    show ?thesis
    proof (cases "flt D (Fin 0)")
      case True
      with an cn assms show ?thesis by (simp add: solveQuadraticFormula_f64_def Let_def D_def)
    next
      case Dn: False
      show ?thesis
      proof (cases "feq D (Fin 0)")
        case True
        with an cn Dn assms have
          "x1 = (if fle (Fin 1) (div_f64 (fneg b) (mul_f64 (Fin 2) a)) \<or> flt (div_f64 (fneg b) (mul_f64 (Fin 2) a)) (Fin 0)
                 then NaN else div_f64 (fneg b) (mul_f64 (Fin 2) a))" "x2 = NaN"
          by (auto simp: solveQuadraticFormula_f64_def Let_def D_def)
        then show ?thesis using in_unit_clip [of "div_f64 (fneg b) (mul_f64 (Fin 2) a)"] by simp
      next
        case Dz: False
        define q where "q = (if flt b (Fin 0) then fneg (sqrt_f64 D) else sqrt_f64 D)"
        define u where "u = div_f64 (fneg (add_f64 b q)) (mul_f64 (Fin 2) a)"
        define v where "v = div_f64 c (mul_f64 a u)"
        have sol: "solveQuadraticFormula_f64 a b c =
            (let (x1, x2) = (if fgt u v then (v, u) else (u, v));
                 x1 = (if fle (Fin 1) x1 \<or> flt x1 (Fin 0) then NaN else x1);
                 x2 = (if fle (Fin 1) x2 \<or> flt x2 (Fin 0) then NaN else x2)
             in (x1, x2))"
          unfolding solveQuadraticFormula_f64_def D_def [symmetric]
          using an cn Dn Dz by (simp add: Let_def q_def u_def v_def)
        show ?thesis
        proof (cases "fgt u v")
          case True
          then have "\<not> flt u v" by (simp add: fgt_def flt_asym)
          from clip_order [OF this] True assms show ?thesis
            unfolding sol by (auto simp: in_unit_clip Let_def)
        next
          case False
          then have "\<not> flt v u" by (simp add: fgt_def)
          from clip_order [OF this] False assms show ?thesis
            unfolding sol by (auto simp: in_unit_clip Let_def)
        qed
      qed
    qed
  qed
qed

lemma solveQuadraticFormula_roots_exact:
  assumes "solveQuadraticFormula a b c = (x1, x2)"
  shows "(\<forall>x \<in> {x1, x2}. x \<noteq> NaN \<longrightarrow>
            (\<exists>r. x = Fin r \<and> 0 \<le> r \<and> r < 1
                 \<and> (\<forall>a' b' c'. a = Fin a' \<and> b = Fin b' \<and> c = Fin c' \<longrightarrow>
                        a' * r\<^sup>2 + b' * r + c' = 0)))
         \<and> (x1 \<noteq> NaN \<and> x2 \<noteq> NaN \<longrightarrow> fle x1 x2)"
proof -
  from solve_range_all [OF assms]
  have u: "in_unit x1" "in_unit x2" and o: "x1 = NaN \<or> x2 = NaN \<or> fle x1 x2" by auto
  have eq: "a' * r\<^sup>2 + b' * r + c' = 0"
    if "x = Fin r" "x = x1 \<or> x = x2" "a = Fin a'" "b = Fin b'" "c = Fin c'" for x r a' b' c'
  proof -
    from assms that(3-5) have "solveQuadraticFormula (Fin a') (Fin b') (Fin c') = (x1, x2)" by simp
    from solveQuadraticFormula_roots_finite [OF this] that(1,2) show ?thesis by auto
  qed
  show ?thesis
  proof (intro conjI ballI impI)
    fix x assume x: "x \<in> {x1, x2}" "x \<noteq> NaN"
    with u obtain r where r: "x = Fin r" "0 \<le> r" "r < 1" by (auto simp: in_unit_def)
    from x(1) have "x = x1 \<or> x = x2" by auto
    with eq [OF r(1)] r show "\<exists>r. x = Fin r \<and> 0 \<le> r \<and> r < 1
                 \<and> (\<forall>a' b' c'. a = Fin a' \<and> b = Fin b' \<and> c = Fin c' \<longrightarrow>
                        a' * r\<^sup>2 + b' * r + c' = 0)" by blast
  next
    assume "x1 \<noteq> NaN \<and> x2 \<noteq> NaN"
    with o show "fle x1 x2" by auto
  qed
qed

text \<open>
  With an infinite coefficient the equation has no meaning: for \<open>a = 1\<close>, \<open>b = +Inf\<close>, \<open>c = 1\<close>
  the solver returns \<open>(NaN, 0)\<close>, and the left-hand side at \<open>x = 0\<close> is NaN.
\<close>

lemma solveQuadraticFormula_infinite_coefficient:
  "solveQuadraticFormula (Fin 1) PInf (Fin 1) = (NaN, Fin 0)
   \<and> solveQuadraticFormula_f64 (Fin 1) PInf (Fin 1) = (NaN, Fin 0)
   \<and> fadd (fadd (fmul (Fin 1) (fmul (Fin 0) (Fin 0))) (fmul PInf (Fin 0))) (Fin 1) = NaN"
  using round64_of_int [of 0]
  by (simp add: solveQuadraticFormula_def solveQuadraticFormula_f64_def add_f64_def sub_f64_def
      mul_f64_def div_f64_def sqrt_f64_def fsub_def fgt_def fle_def inf_of_sign_def round64_numeral Let_def)

text \<open>
  An underflow: for \<open>a = 0\<close>, \<open>b = 2\<^sup>6\<^sup>0\<^sup>0\<close>, \<open>c = 2\<^sup>-\<^sup>6\<^sup>0\<^sup>0\<close> the quotient \<open>-c / b\<close> rounds to zero, which
  is not below 0, so the rounded solver returns 0 (Go returns the zero with the negative
  sign), while the exact quotient is negative and is clipped. 0 is not a root: \<open>b 0 + c = c\<close>.
\<close>

lemma solveQuadraticFormula_f64_underflow:
  "solveQuadraticFormula_f64 (Fin 0) (Fin (2 ^ 600)) (Fin (1 / 2 ^ 600)) = (Fin 0, NaN)
   \<and> solveQuadraticFormula (Fin 0) (Fin (2 ^ 600)) (Fin (1 / 2 ^ 600)) = (NaN, NaN)"
proof -
  have "round64 (- (1 / 2 ^ 600) / 2 ^ 600) = Fin 0"
    by (rule round64_tiny) simp
  then show ?thesis
    by (simp add: solveQuadraticFormula_f64_def solveQuadraticFormula_def div_f64_def fle_def Let_def)
qed

text \<open>
  Claim C3, as stated: for every \<open>a\<close>, \<open>b\<close>, \<open>c\<close> each returned value that is not NaN satisfies
  \<open>a x\<^sup>2 + b x + c = 0\<close>. In \<^verbatim>\<open>float64\<close> arithmetic this fails for \<open>a = 19\<close>, \<open>b = 2\<close>, \<open>c = -21\<close>,
  whose roots are \<open>1\<close> and \<open>-21/19\<close>: the first root is computed as \<open>-42/38\<close> rounded, the
  second as \<open>-21\<close> divided by the rounded product of 19 and the first, which is
  \<open>1 - 2\<^sup>-\<^sup>5\<^sup>2\<close>. That value is below 1, so it is returned, and it is not a root.
\<close>

theorem solveQuadraticFormula_rounded_not_root:
  "solveQuadraticFormula_f64 (Fin 19) (Fin 2) (Fin (- 21)) = (NaN, Fin (1 - 1 / 2 ^ 52))
   \<and> 19 * (1 - 1 / 2 ^ 52)\<^sup>2 + 2 * (1 - 1 / 2 ^ 52) + (- 21) \<noteq> (0::real)"
proof -
  have s: "sqrt 1600 = 40" using real_sqrt_abs [of 40] by simp
  have x1: "round64 (- (21 / 19)) = Fin (- 4977662746041075 / 2 ^ 52)"
    using round64_scaled [of "- (21 / 19)" 52 "- 4977662746041075"] by simp
  have ax1: "round64 (19 * (- 4977662746041075 / 2 ^ 52)) = Fin (- 5910974510923777 / 2 ^ 48)"
    using round64_scaled [of "19 * (- 4977662746041075 / 2 ^ 52)" 48 "- 5910974510923777"] by simp
  have x2: "round64 (- 21 / (- 5910974510923777 / 2 ^ 48)) = Fin (9007199254740990 / 2 ^ 53)"
    using round64_scaled [of "- 21 / (- 5910974510923777 / 2 ^ 48)" 53 "9007199254740990"] by simp
  have "solveQuadraticFormula_f64 (Fin 19) (Fin 2) (Fin (- 21)) = (NaN, Fin (1 - 1 / 2 ^ 52))"
    using x1 ax1 x2
    by (simp add: solveQuadraticFormula_f64_def add_f64_def sub_f64_def mul_f64_def div_f64_def sqrt_f64_def
        fsub_def fgt_def fle_def round64_numeral round64_neg_numeral s Let_def)
  then show ?thesis by (simp add: power2_eq_square)
qed

text \<open>
  Claim C3, amended. In \<^verbatim>\<open>float64\<close> arithmetic as in exact arithmetic, for all \<open>a\<close>, \<open>b\<close>, \<open>c\<close>
  every value \<^verbatim>\<open>solveQuadraticFormula\<close> returns that is not NaN is a real \<open>r\<close> with
  \<open>0 \<le> r < 1\<close>, and when both returned values are not NaN the first is at most the second.
  In exact arithmetic (no rounding), when the coefficients are finite, \<open>r\<close> also satisfies
  \<open>a r\<^sup>2 + b r + c = 0\<close>. Here \<open>(x1, x2)\<close> is the result over the rounded operations and
  \<open>(e1, e2)\<close> the result over the exact ones.
\<close>

theorem solveQuadraticFormula_roots:
  assumes "solveQuadraticFormula_f64 a b c = (x1, x2)"
    and "solveQuadraticFormula a b c = (e1, e2)"
  shows "(\<forall>x \<in> {x1, x2}. x \<noteq> NaN \<longrightarrow> (\<exists>r. x = Fin r \<and> 0 \<le> r \<and> r < 1))
         \<and> (x1 \<noteq> NaN \<and> x2 \<noteq> NaN \<longrightarrow> fle x1 x2)
         \<and> (\<forall>x \<in> {e1, e2}. x \<noteq> NaN \<longrightarrow>
            (\<exists>r. x = Fin r \<and> 0 \<le> r \<and> r < 1
                 \<and> (\<forall>a' b' c'. a = Fin a' \<and> b = Fin b' \<and> c = Fin c' \<longrightarrow>
                        a' * r\<^sup>2 + b' * r + c' = 0)))
         \<and> (e1 \<noteq> NaN \<and> e2 \<noteq> NaN \<longrightarrow> fle e1 e2)"
proof -
  from solve_range_all_f64 [OF assms(1)]
  have u: "in_unit x1" "in_unit x2" and o: "x1 = NaN \<or> x2 = NaN \<or> fle x1 x2" by auto
  have r: "\<forall>x \<in> {x1, x2}. x \<noteq> NaN \<longrightarrow> (\<exists>r. x = Fin r \<and> 0 \<le> r \<and> r < 1)"
    using u by (auto simp: in_unit_def)
  have f: "x1 \<noteq> NaN \<and> x2 \<noteq> NaN \<longrightarrow> fle x1 x2" using o by auto
  from solveQuadraticFormula_roots_exact [OF assms(2)] r f show ?thesis by blast
qed

theorem solveQuadraticFormula_roots_witness:
  "solveQuadraticFormula_f64 (Fin 8) (Fin (- 6)) (Fin 1) = (Fin (1 / 4), Fin (1 / 2))
   \<and> solveQuadraticFormula (Fin 8) (Fin (- 6)) (Fin 1) = (Fin (1 / 4), Fin (1 / 2))
   \<and> (\<exists>r. Fin (1 / 4) = Fin r \<and> 0 \<le> r \<and> r < 1 \<and> 8 * r\<^sup>2 + (- 6) * r + 1 = 0)
   \<and> (\<exists>r. Fin (1 / 2) = Fin r \<and> 0 \<le> r \<and> r < 1 \<and> 8 * r\<^sup>2 + (- 6) * r + 1 = 0)
   \<and> fle (Fin (1 / 4)) (Fin (1 / 2))"
proof -
  have s4: "sqrt 4 = 2"
    using real_sqrt_abs [of 2] by simp
  have h: "round64 (1 / 2) = Fin (1 / 2)" using round64_dyadic [of 1 1] by simp
  have q: "round64 (1 / 4) = Fin (1 / 4)" using round64_dyadic [of 1 2] by simp
  have r: "solveQuadraticFormula_f64 (Fin 8) (Fin (- 6)) (Fin 1) = (Fin (1 / 4), Fin (1 / 2))"
    by (simp add: solveQuadraticFormula_f64_def add_f64_def sub_f64_def mul_f64_def div_f64_def sqrt_f64_def
        fsub_def fgt_def fle_def round64_numeral round64_neg_numeral s4 h q Let_def)
  have e: "solveQuadraticFormula (Fin 8) (Fin (- 6)) (Fin 1) = (Fin (1 / 4), Fin (1 / 2))"
    by (simp add: solveQuadraticFormula_def fsub_def fgt_def fle_def s4)
  from solveQuadraticFormula_roots [OF r e] r e show ?thesis by simp
qed

text \<open>
  Claim C7. With \<open>a = b = c = 0\<close> the solver returns \<open>(0, NaN)\<close>, whose first component is
  not NaN; with \<open>a = b = 0\<close> and \<open>c\<close> not equal to 0 it returns the absent result
  \<open>(NaN, NaN)\<close>, so the two results differ.
\<close>

theorem solveQuadraticFormula_all_zero_distinct:
  "solveQuadraticFormula (Fin 0) (Fin 0) (Fin 0) = (Fin 0, NaN)
   \<and> \<not> IsNaN (fst (solveQuadraticFormula (Fin 0) (Fin 0) (Fin 0)))
   \<and> (\<not> feq c (Fin 0) \<longrightarrow>
        solveQuadraticFormula (Fin 0) (Fin 0) c = (NaN, NaN)
        \<and> IsNaN (fst (solveQuadraticFormula (Fin 0) (Fin 0) c))
        \<and> solveQuadraticFormula (Fin 0) (Fin 0) (Fin 0) \<noteq> solveQuadraticFormula (Fin 0) (Fin 0) c)"
  by (simp add: solveQuadraticFormula_def IsNaN_def)

theorem solveQuadraticFormula_all_zero_distinct_witness:
  "solveQuadraticFormula (Fin 0) (Fin 0) (Fin 0) = (Fin 0, NaN)
   \<and> \<not> feq (Fin 1) (Fin 0)
   \<and> solveQuadraticFormula (Fin 0) (Fin 0) (Fin 1) = (NaN, NaN)
   \<and> solveQuadraticFormula (Fin 0) (Fin 0) (Fin 0) \<noteq> solveQuadraticFormula (Fin 0) (Fin 0) (Fin 1)"
  using solveQuadraticFormula_all_zero_distinct [of "Fin 1"] by simp

section \<open>Properties of quadrature, bisection and the arc-length polynomial\<close>

lemma gaussLegendre5_NaN_left: "gaussLegendre5 f NaN b = NaN"
  by (simp add: gaussLegendre5_def Let_def)

lemma gaussLegendre5_NaN_right: "gaussLegendre5 f a NaN = NaN"
  by (simp add: gaussLegendre5_def Let_def)

text \<open>
  Claim C4, as stated: order-5 quadrature of the constant 1 over \<open>[0, 1]\<close> is exactly 1.
  With the weights as written in the source it is not: the weights sum to 2.000001.
\<close>

theorem gaussLegendre5_one_not_exact:
  "gaussLegendre5 (\<lambda>x. Fin 1) (Fin 0) (Fin 1) \<noteq> Fin 1"
  by (simp add: gaussLegendre5_def fsub_def)

text \<open>
  Claim C4, amended. With exact arithmetic \<^verbatim>\<open>gaussLegendre5\<close> returns 1.0000005 for the
  constant 1 over \<open>[0, 1]\<close> and 2.000001 for the identity over \<open>[0, 2]\<close>: the exact
  integrals up to the relative error \<open>5 * 10\<^sup>-\<^sup>7\<close> of the six-digit weights.
\<close>

theorem gaussLegendre5_values:
  "gaussLegendre5 (\<lambda>x. Fin 1) (Fin 0) (Fin 1) = Fin 1.0000005
   \<and> gaussLegendre5 (\<lambda>x. x) (Fin 0) (Fin 2) = Fin 2.000001"
  by (simp add: gaussLegendre5_def fsub_def)

lemma bisectionLoop_bracket:
  assumes "is_float64 lo" "is_float64 hi" "lo \<le> hi"
    and "2 * \<bar>lo\<bar> < overflow_threshold" "2 * \<bar>hi\<bar> < overflow_threshold"
  shows "\<exists>x k. bisectionLoop f y tx ty n (Fin lo) (Fin hi) = (Fin x, k)
            \<and> is_float64 x \<and> lo \<le> x \<and> x \<le> hi \<and> n \<le> k \<and> k \<le> max n 100"
  using assms
proof (induction "100 - n" arbitrary: n lo hi)
  case 0
  then have n: "n \<ge> 100" by simp
  from midpoint_in_bracket [OF 0(2-6)] obtain m where
    m: "div_f64 (add_f64 (Fin lo) (Fin hi)) (Fin 2) = Fin m" "lo \<le> m" "m \<le> hi" "is_float64 m" by blast
  have "bisectionLoop f y tx ty n (Fin lo) (Fin hi) = (Fin m, n)"
    using n by (subst bisectionLoop.simps) (simp add: m(1))
  then show ?case using m n by (intro exI [of _ m] exI [of _ n]) (simp add: max_def)
next
  case (Suc j)
  then have n: "\<not> n \<ge> 100" and j: "j = 100 - (n + 1)" by auto
  from midpoint_in_bracket [OF Suc.prems] obtain m where
    m: "div_f64 (add_f64 (Fin lo) (Fin hi)) (Fin 2) = Fin m" "lo \<le> m" "m \<le> hi" "is_float64 m" by blast
  have bm: "2 * \<bar>m\<bar> < overflow_threshold" using m(2,3) Suc.prems(4,5) by linarith
  show ?case
  proof (cases "flt (fabs (sub_f64 (f (Fin m)) y)) ty \<or> flt (div_f64 (fabs (sub_f64 (Fin hi) (Fin lo))) (Fin 2)) tx")
    case True
    then have "bisectionLoop f y tx ty n (Fin lo) (Fin hi) = (Fin m, n)"
      using n by (subst bisectionLoop.simps) (simp only: m(1) if_True if_False)
    then show ?thesis using m n by (intro exI [of _ m] exI [of _ n]) (simp add: max_def)
  next
    case stop: False
    show ?thesis
    proof (cases "fgt (sub_f64 (f (Fin m)) y) (Fin 0)")
      case True
      from Suc.hyps(1) [OF j Suc.prems(1) m(4) m(2) Suc.prems(4) bm] obtain x k where
        r: "bisectionLoop f y tx ty (n + 1) (Fin lo) (Fin m) = (Fin x, k)"
        and b: "is_float64 x" "lo \<le> x" "x \<le> m" "n + 1 \<le> k" "k \<le> max (n + 1) 100" by blast
      have "bisectionLoop f y tx ty n (Fin lo) (Fin hi) = (Fin x, k)"
        using n stop True r by (subst bisectionLoop.simps) (simp only: m(1) if_True if_False)
      then show ?thesis using b m n by (intro exI [of _ x] exI [of _ k]) (simp add: max_def)
    next
      case False
      from Suc.hyps(1) [OF j m(4) Suc.prems(2) m(3) bm Suc.prems(5)] obtain x k where
        r: "bisectionLoop f y tx ty (n + 1) (Fin m) (Fin hi) = (Fin x, k)"
        and b: "is_float64 x" "m \<le> x" "x \<le> hi" "n + 1 \<le> k" "k \<le> max (n + 1) 100" by blast
      have "bisectionLoop f y tx ty n (Fin lo) (Fin hi) = (Fin x, k)"
        using n stop False r by (subst bisectionLoop.simps) (simp only: m(1) if_True if_False)
      then show ?thesis using b m n by (intro exI [of _ x] exI [of _ k]) (simp add: max_def)
    qed
  qed
qed

lemma bisectionLoop_count:
  "n \<le> snd (bisectionLoop f y tx ty n lo hi) \<and> snd (bisectionLoop f y tx ty n lo hi) \<le> max n 100"
proof (induction "100 - n" arbitrary: n lo hi)
  case 0
  then show ?case by (subst (1 2) bisectionLoop.simps) simp
next
  case (Suc j)
  then have n: "\<not> n \<ge> 100" and j: "j = 100 - (n + 1)" by auto
  let ?m = "div_f64 (add_f64 lo hi) (Fin 2)"
  have a: "n \<le> snd (bisectionLoop f y tx ty (n + 1) lo ?m)" "snd (bisectionLoop f y tx ty (n + 1) lo ?m) \<le> 100"
    using Suc.hyps(1) [OF j, of lo ?m] n by (simp_all add: max_def)
  have b: "n \<le> snd (bisectionLoop f y tx ty (n + 1) ?m hi)" "snd (bisectionLoop f y tx ty (n + 1) ?m hi) \<le> 100"
    using Suc.hyps(1) [OF j, of ?m hi] n by (simp_all add: max_def)
  from a b n show ?case
    by (subst (1 2) bisectionLoop.simps) (simp add: max_def)
qed

lemma flt_PInf: "flt PInf x = False"
  by (cases x) simp_all

lemma bisectionLoop_PInf:
  "n \<le> 100 \<Longrightarrow> bisectionLoop (\<lambda>x. x) (Fin 0) tx ty n (Fin a) PInf = (PInf, 100)"
proof (induction "100 - n" arbitrary: n)
  case 0
  then show ?case by (subst bisectionLoop.simps) (simp add: add_f64_def div_f64_def)
next
  case (Suc m)
  then have "bisectionLoop (\<lambda>x. x) (Fin 0) tx ty (n + 1) (Fin a) PInf = (PInf, 100)" by simp
  with Suc.prems Suc.hyps(2) show ?case
    by (subst bisectionLoop.simps) (simp add: add_f64_def div_f64_def sub_f64_def fsub_def fgt_def flt_PInf)
qed

text \<open>
  Claim C5, as stated: for every bracket with \<open>xmin \<le> xmax\<close> the returned value lies in
  \<open>[xmin, xmax]\<close>. For the bracket \<open>[2\<^sup>1\<^sup>0\<^sup>2\<^sup>3, 1.5 * 2\<^sup>1\<^sup>0\<^sup>2\<^sup>3]\<close> of two \<^verbatim>\<open>float64\<close> values, the
  identity function and the target 0, the sum \<open>xmin + xmax\<close> overflows: the first midpoint
  is \<open>+Inf\<close>, it becomes the upper end of the bracket, and after 100 rounds \<open>+Inf\<close> is
  returned, which is above \<open>xmax\<close>.
\<close>

theorem bisectionMethod_overflow:
  "is_float64 (2 ^ 1023) \<and> is_float64 (3 * 2 ^ 1022) \<and> (2::real) ^ 1023 \<le> 3 * 2 ^ 1022
   \<and> bisectionRun (\<lambda>x. x) (Fin 0) (Fin (2 ^ 1023)) (Fin (3 * 2 ^ 1022)) = (PInf, 100)
   \<and> bisectionMethod (\<lambda>x. x) (Fin 0) (Fin (2 ^ 1023)) (Fin (3 * 2 ^ 1022)) = PInf
   \<and> \<not> fle PInf (Fin (3 * 2 ^ 1022))"
proof -
  have c: "round64 0.001 = Fin (4611686018427388 / 2 ^ 62)"
    using round64_scaled [of "0.001" 62 4611686018427388] by simp
  have d: "round64 (3 * 2 ^ 1022 - 2 ^ 1023) = Fin (2 ^ 1022)"
    using round64_pow2 [of 1 1022] by (simp add: overflow_threshold_def)
  have h: "round64 (2 ^ 1022 / 2) = Fin (2 ^ 1021)"
    using round64_pow2 [of 1 1021] by (simp add: overflow_threshold_def)
  have t: "round64 (2 ^ 1022 * (4611686018427388 / 2 ^ 62)) = Fin (4611686018427388 * 2 ^ 960)"
    using round64_pow2 [of 4611686018427388 960] by (simp add: overflow_threshold_def)
  have s: "round64 (2 ^ 1023 + 3 * 2 ^ 1022) = PInf"
    using round64_pow2_overflow [of 5 1022] by (simp add: overflow_threshold_def)
  have lo: "is_float64 (2 ^ 1023)"
    using round64_pow2 [of 1 1023] by (simp add: overflow_threshold_def is_float64_def)
  have hi: "is_float64 (3 * 2 ^ 1022)"
    using round64_pow2 [of 3 1022] by (simp add: overflow_threshold_def is_float64_def)
  have run: "bisectionRun (\<lambda>x. x) (Fin 0) (Fin (2 ^ 1023)) (Fin (3 * 2 ^ 1022)) = (PInf, 100)"
    unfolding bisectionRun_def
    by (subst bisectionLoop.simps)
       (simp add: add_f64_def div_f64_def sub_f64_def mul_f64_def fsub_def fgt_def
          c [simplified] d [simplified] h [simplified] t [simplified] s [simplified] bisectionLoop_PInf)
  have "\<not> fle PInf (Fin (3 * 2 ^ 1022))" by (simp add: fle_def)
  with lo hi run show ?thesis by (simp add: bisectionMethod_def)
qed

text \<open>
  Claim C5, amended. For every function \<open>f\<close>, every target \<open>y\<close> and every bracket,
  \<^verbatim>\<open>bisectionMethod\<close> returns after at most 100 bisections (the loop is total). When the
  ends of the bracket are \<^verbatim>\<open>float64\<close> values with \<open>xmin \<le> xmax\<close>, both of magnitude below
  \<open>2\<^sup>1\<^sup>0\<^sup>2\<^sup>3\<close> (no sum of two values of the bracket overflows), the returned value is a
  finite \<^verbatim>\<open>float64\<close> value inside \<open>[xmin, xmax]\<close>. The arithmetic is rounded.
\<close>

theorem bisectionMethod_bracket:
  "snd (bisectionRun f y a b) \<le> 100
   \<and> (is_float64 xmin \<and> is_float64 xmax \<and> xmin \<le> xmax \<and> \<bar>xmin\<bar> < 2 ^ 1023 \<and> \<bar>xmax\<bar> < 2 ^ 1023 \<longrightarrow>
        (\<exists>x k. bisectionRun f y (Fin xmin) (Fin xmax) = (Fin x, k)
             \<and> bisectionMethod f y (Fin xmin) (Fin xmax) = Fin x
             \<and> is_float64 x \<and> xmin \<le> x \<and> x \<le> xmax \<and> k \<le> 100))"
proof (intro conjI impI)
  obtain tx ty where "bisectionRun f y a b = bisectionLoop f y tx ty 0 a b"
    by (simp add: bisectionRun_def Let_def)
  with bisectionLoop_count [of 0 f y tx ty a b] show "snd (bisectionRun f y a b) \<le> 100" by simp
next
  assume h: "is_float64 xmin \<and> is_float64 xmax \<and> xmin \<le> xmax \<and> \<bar>xmin\<bar> < 2 ^ 1023 \<and> \<bar>xmax\<bar> < 2 ^ 1023"
  then have b: "2 * \<bar>xmin\<bar> < overflow_threshold" "2 * \<bar>xmax\<bar> < overflow_threshold"
    by (simp_all add: overflow_threshold_def)
  obtain tx ty where run: "bisectionRun f y (Fin xmin) (Fin xmax) = bisectionLoop f y tx ty 0 (Fin xmin) (Fin xmax)"
    by (simp add: bisectionRun_def Let_def)
  from h b bisectionLoop_bracket [of xmin xmax f y tx ty 0] obtain x k where
    "bisectionLoop f y tx ty 0 (Fin xmin) (Fin xmax) = (Fin x, k)" "is_float64 x" "xmin \<le> x" "x \<le> xmax" "k \<le> max 0 100"
    by blast
  then show "\<exists>x k. bisectionRun f y (Fin xmin) (Fin xmax) = (Fin x, k)
             \<and> bisectionMethod f y (Fin xmin) (Fin xmax) = Fin x
             \<and> is_float64 x \<and> xmin \<le> x \<and> x \<le> xmax \<and> k \<le> 100"
    using run by (auto simp: bisectionMethod_def)
qed

theorem bisectionMethod_bracket_witness:
  "bisectionRun (\<lambda>x. x) (Fin (5 / 16)) (Fin 0) (Fin 1) = (Fin (5 / 16), 3)
   \<and> snd (bisectionRun (\<lambda>x. x) (Fin (5 / 16)) (Fin 0) (Fin 1)) \<le> 100
   \<and> is_float64 0 \<and> is_float64 1 \<and> (0::real) \<le> 1 \<and> \<bar>0::real\<bar> < 2 ^ 1023 \<and> \<bar>1::real\<bar> < 2 ^ 1023
   \<and> (\<exists>x k. bisectionRun (\<lambda>x. x) (Fin (5 / 16)) (Fin 0) (Fin 1) = (Fin x, k)
          \<and> bisectionMethod (\<lambda>x. x) (Fin (5 / 16)) (Fin 0) (Fin 1) = Fin x
          \<and> is_float64 x \<and> 0 \<le> x \<and> x \<le> 1 \<and> k \<le> 100)"
proof -
  have c: "round64 0.001 = Fin (4611686018427388 / 2 ^ 62)"
    using round64_scaled [of "0.001" 62 4611686018427388] by simp
  have cc: "round64 (4611686018427388 / 2 ^ 62) = Fin (4611686018427388 / 2 ^ 62)"
    using round64_dyadic [of 4611686018427388 62] by simp
  have z: "round64 0 = Fin 0" using round64_of_int [of 0] by simp
  have o: "round64 1 = Fin 1" using round64_of_int [of 1] by simp
  have d: "round64 (1 / 2) = Fin (1 / 2)" "round64 (1 / 4) = Fin (1 / 4)" "round64 (1 / 8) = Fin (1 / 8)"
    "round64 (1 / 16) = Fin (1 / 16)" "round64 (- (1 / 16)) = Fin (- (1 / 16))"
    "round64 (3 / 4) = Fin (3 / 4)" "round64 (3 / 8) = Fin (3 / 8)" "round64 (3 / 16) = Fin (3 / 16)"
    "round64 (5 / 8) = Fin (5 / 8)" "round64 (5 / 16) = Fin (5 / 16)"
    using round64_dyadic [of 1 1] round64_dyadic [of 1 2] round64_dyadic [of 1 3] round64_dyadic [of 1 4]
      round64_dyadic [of "- 1" 4] round64_dyadic [of 3 2] round64_dyadic [of 3 3] round64_dyadic [of 3 4]
      round64_dyadic [of 5 3] round64_dyadic [of 5 4]
    by simp_all
  have run: "bisectionRun (\<lambda>x. x) (Fin (5 / 16)) (Fin 0) (Fin 1) = (Fin (5 / 16), 3)"
    unfolding bisectionRun_def
    by (simp add: bisectionLoop.simps add_f64_def div_f64_def sub_f64_def mul_f64_def fsub_def fgt_def
          c [simplified] cc [simplified] z o d Let_def)
  have f: "is_float64 0" "is_float64 1" using z o by (simp_all add: is_float64_def)
  from bisectionMethod_bracket [of "\<lambda>x. x" "Fin (5 / 16)" "Fin 0" "Fin 1" 0 1] f run
  show ?thesis by simp
qed

text \<open>
  Claim C6, as stated: the returned total length equals the polynomial's value at
  \<open>xmax\<close>. For the integrand \<open>-1\<close> on \<open>[0, 1]\<close> the length is positive and the polynomial's
  value at 1 is negative.
\<close>

theorem polynomialApprox3_length_not_value:
  "snd (polynomialApprox3 gaussLegendre5 (\<lambda>x. Fin (- 1)) (Fin 0) (Fin 1))
     \<noteq> fst (polynomialApprox3 gaussLegendre5 (\<lambda>x. Fin (- 1)) (Fin 0) (Fin 1)) (Fin 1)"
  by (simp add: polynomialApprox3_def gaussLegendre5_def fsub_def)

text \<open>
  Claim C6, amended. With exact arithmetic (no rounding), for \<open>xmin < xmax\<close> and finite
  quadrature samples \<open>y1\<close>, \<open>y2\<close>, \<open>y3\<close>, the returned polynomial is 0 at \<open>xmin\<close> and takes the
  values \<open>y1\<close>, \<open>y2\<close>, \<open>y3\<close> at \<open>xmin + (xmax - xmin) / 3\<close>, \<open>xmin + 2 (xmax - xmin) / 3\<close> and
  \<open>xmax\<close>; the returned total length is \<open>\<bar>y3\<bar>\<close>, the absolute value of the polynomial's
  value at \<open>xmax\<close>.
\<close>

theorem polynomialApprox3_interpolates:
  assumes lt: "xmin < xmax"
    and y1: "gaussLegendre fp (Fin xmin) (Fin (xmin + (xmax - xmin) / 3)) = Fin y1"
    and y2: "gaussLegendre fp (Fin xmin) (Fin (xmin + 2 * (xmax - xmin) / 3)) = Fin y2"
    and y3: "gaussLegendre fp (Fin xmin) (Fin xmax) = Fin y3"
  shows "fst (polynomialApprox3 gaussLegendre fp (Fin xmin) (Fin xmax)) (Fin xmin) = Fin 0
       \<and> fst (polynomialApprox3 gaussLegendre fp (Fin xmin) (Fin xmax)) (Fin (xmin + (xmax - xmin) / 3)) = Fin y1
       \<and> fst (polynomialApprox3 gaussLegendre fp (Fin xmin) (Fin xmax)) (Fin (xmin + 2 * (xmax - xmin) / 3)) = Fin y2
       \<and> fst (polynomialApprox3 gaussLegendre fp (Fin xmin) (Fin xmax)) (Fin xmax) = Fin y3
       \<and> snd (polynomialApprox3 gaussLegendre fp (Fin xmin) (Fin xmax)) = Fin \<bar>y3\<bar>"
proof -
  have d: "xmax - xmin \<noteq> 0" using lt by simp
  have a1: "fadd (Fin xmin) (fdiv (fmul (fsub (Fin xmax) (Fin xmin)) (Fin 1)) (Fin 3)) = Fin (xmin + (xmax - xmin) / 3)"
    by (simp add: fsub_def)
  have a2: "fadd (Fin xmin) (fdiv (fmul (fsub (Fin xmax) (Fin xmin)) (Fin 2)) (Fin 3)) = Fin (xmin + 2 * (xmax - xmin) / 3)"
    by (simp add: fsub_def algebra_simps)
  define a where "a = 13.5 * y1 - 13.5 * y2 + 4.5 * y3"
  define b where "b = - 22.5 * y1 + 18 * y2 - 4.5 * y3"
  define c where "c = 9 * y1 - 4.5 * y2 + y3"
  have poly: "fst (polynomialApprox3 gaussLegendre fp (Fin xmin) (Fin xmax)) (Fin x)
      = Fin (a * ((x - xmin) / (xmax - xmin)) * ((x - xmin) / (xmax - xmin)) * ((x - xmin) / (xmax - xmin))
             + b * ((x - xmin) / (xmax - xmin)) * ((x - xmin) / (xmax - xmin))
             + c * ((x - xmin) / (xmax - xmin)))" for x
    unfolding polynomialApprox3_def Let_def a1 a2 y1 y2 y3
    using d by (simp add: fsub_def a_def b_def c_def)
  have len: "snd (polynomialApprox3 gaussLegendre fp (Fin xmin) (Fin xmax)) = Fin \<bar>y3\<bar>"
    unfolding polynomialApprox3_def Let_def a1 a2 y1 y2 y3 by simp
  have f0: "(xmin - xmin) / (xmax - xmin) = 0" by simp
  have f1: "(xmin + (xmax - xmin) / 3 - xmin) / (xmax - xmin) = 1 / 3" using d by (simp add: field_simps)
  have f2: "(xmin + 2 * (xmax - xmin) / 3 - xmin) / (xmax - xmin) = 2 / 3" using d by (simp add: field_simps)
  have f3: "(xmax - xmin) / (xmax - xmin) = 1" using d by simp
  have p0: "fst (polynomialApprox3 gaussLegendre fp (Fin xmin) (Fin xmax)) (Fin xmin) = Fin 0"
    unfolding poly f0 by simp
  have p1: "fst (polynomialApprox3 gaussLegendre fp (Fin xmin) (Fin xmax)) (Fin (xmin + (xmax - xmin) / 3)) = Fin y1"
    unfolding poly f1 by (simp add: a_def b_def c_def field_simps)
  have p2: "fst (polynomialApprox3 gaussLegendre fp (Fin xmin) (Fin xmax)) (Fin (xmin + 2 * (xmax - xmin) / 3)) = Fin y2"
    unfolding poly f2 by (simp add: a_def b_def c_def field_simps)
  have p3: "fst (polynomialApprox3 gaussLegendre fp (Fin xmin) (Fin xmax)) (Fin xmax) = Fin y3"
    unfolding poly f3 by (simp add: a_def b_def c_def field_simps)
  show ?thesis using p0 p1 p2 p3 len by simp
qed


theorem polynomialApprox3_interpolates_witness:
  "fst (polynomialApprox3 (\<lambda>f a b. f b) (\<lambda>x. fadd (fsub (fmul (fmul x x) x) (fmul (fmul (Fin 2) x) x)) x) (Fin 0) (Fin 6)) (Fin 0) = Fin 0
   \<and> fst (polynomialApprox3 (\<lambda>f a b. f b) (\<lambda>x. fadd (fsub (fmul (fmul x x) x) (fmul (fmul (Fin 2) x) x)) x) (Fin 0) (Fin 6)) (Fin 2) = Fin 2
   \<and> fst (polynomialApprox3 (\<lambda>f a b. f b) (\<lambda>x. fadd (fsub (fmul (fmul x x) x) (fmul (fmul (Fin 2) x) x)) x) (Fin 0) (Fin 6)) (Fin 4) = Fin 36
   \<and> fst (polynomialApprox3 (\<lambda>f a b. f b) (\<lambda>x. fadd (fsub (fmul (fmul x x) x) (fmul (fmul (Fin 2) x) x)) x) (Fin 0) (Fin 6)) (Fin 6) = Fin 150
   \<and> snd (polynomialApprox3 (\<lambda>f a b. f b) (\<lambda>x. fadd (fsub (fmul (fmul x x) x) (fmul (fmul (Fin 2) x) x)) x) (Fin 0) (Fin 6)) = Fin 150"
proof -
  have "(0::real) < 6" by simp
  from polynomialApprox3_interpolates [OF this, of "\<lambda>f a b. f b" "\<lambda>x. fadd (fsub (fmul (fmul x x) x) (fmul (fmul (Fin 2) x) x)) x" 2 36 150]
  show ?thesis by (simp add: fsub_def)
qed

section \<open>Properties of elliptical arcs\<close>

text \<open>
  Claim C8. \<^verbatim>\<open>ellipseLength\<close> is symmetric in its two angle arguments, for all values of
  its arguments (NaN results are equal as values of the model).
\<close>

theorem ellipseLength_sym: "ellipseLength rx ry theta1 theta2 = ellipseLength rx ry theta2 theta1"
proof -
  consider "flt theta2 theta1" | "flt theta1 theta2" | "\<not> flt theta2 theta1" "\<not> flt theta1 theta2"
    by blast
  then show ?thesis
  proof cases
    case 1
    then have "\<not> flt theta1 theta2" by (cases theta1; cases theta2) auto
    with 1 show ?thesis by (simp add: ellipseLength_def)
  next
    case 2
    then have "\<not> flt theta2 theta1" by (cases theta1; cases theta2) auto
    with 2 show ?thesis by (simp add: ellipseLength_def)
  next
    case 3
    from flt_cases [OF 3] show ?thesis
      using 3 by (auto simp: ellipseLength_def gaussLegendre5_NaN_left gaussLegendre5_NaN_right)
  qed
qed






















section \<open>Properties of the cubic Bezier helpers\<close>

text \<open>
  Claim C9. \<^verbatim>\<open>cubicBezierNormal\<close> returns a point (it does not panic) when \<open>t\<close> is 0 or 1,
  for all control points and offsets, and returns the zero point when the four control
  points are one finite point; for every other \<open>t\<close> it panics.
\<close>

theorem cubicBezierNormal_endpoints_only:
  "(feq t (Fin 0) \<or> feq t (Fin 1) \<longrightarrow> (\<exists>n. cubicBezierNormal p0 p1 p2 p3 t d = Inr n))
   \<and> (\<not> feq t (Fin 0) \<and> \<not> feq t (Fin 1) \<longrightarrow>
        cubicBezierNormal p0 p1 p2 p3 t d = Inl (Panic ''not implemented''))
   \<and> (X p0 = Fin x \<and> Y p0 = Fin y \<longrightarrow>
        cubicBezierNormal p0 p0 p0 p0 (Fin 0) d = Inr PointZero
        \<and> cubicBezierNormal p0 p0 p0 p0 (Fin 1) d = Inr PointZero)"
  by (auto simp: cubicBezierNormal_def Let_def Sub_def fsub_def)

theorem cubicBezierNormal_endpoints_only_witness:
  "cubicBezierNormal \<lparr>X = Fin 0, Y = Fin 0\<rparr> \<lparr>X = Fin 0, Y = Fin 0\<rparr> \<lparr>X = Fin 1, Y = Fin 0\<rparr>
       \<lparr>X = Fin 2, Y = Fin 0\<rparr> (Fin 0) (Fin 2) = Inr \<lparr>X = Fin 0, Y = Fin (- 2)\<rparr>
   \<and> cubicBezierNormal \<lparr>X = Fin 0, Y = Fin 0\<rparr> \<lparr>X = Fin 0, Y = Fin 0\<rparr> \<lparr>X = Fin 1, Y = Fin 0\<rparr>
       \<lparr>X = Fin 2, Y = Fin 0\<rparr> (Fin (1 / 2)) (Fin 2) = Inl (Panic ''not implemented'')
   \<and> cubicBezierNormal \<lparr>X = Fin 1, Y = Fin 2\<rparr> \<lparr>X = Fin 1, Y = Fin 2\<rparr> \<lparr>X = Fin 1, Y = Fin 2\<rparr>
       \<lparr>X = Fin 1, Y = Fin 2\<rparr> (Fin 1) (Fin 2) = Inr PointZero"
  using cubicBezierNormal_endpoints_only
          [of "Fin (1 / 2)" "\<lparr>X = Fin 0, Y = Fin 0\<rparr>" "\<lparr>X = Fin 0, Y = Fin 0\<rparr>"
              "\<lparr>X = Fin 1, Y = Fin 0\<rparr>" "\<lparr>X = Fin 2, Y = Fin 0\<rparr>" "Fin 2" 0 0]
        cubicBezierNormal_endpoints_only
          [of "Fin 1" "\<lparr>X = Fin 1, Y = Fin 2\<rparr>" "\<lparr>X = Fin 1, Y = Fin 2\<rparr>"
              "\<lparr>X = Fin 1, Y = Fin 2\<rparr>" "\<lparr>X = Fin 1, Y = Fin 2\<rparr>" "Fin 2" 1 2]
  by (simp add: cubicBezierNormal_def Sub_def fsub_def Norm_def Rot90CW_def Length_def PointZero_def)

section \<open>Properties of the flattener\<close>

subsection \<open>Two runs on one segment\<close>

text \<open>The segment \<open>(0,0) (1,0) (2,3) (-3,-5)\<close> has no inflection point in \<open>[0, 1)\<close>, so it
  is flattened by subdivision. With the tolerance \<open>81/196\<close> the run subdivides at \<open>3/7\<close> and
  then at \<open>3/4\<close>; with the tolerance \<open>1/4\<close> it subdivides at \<open>1/3\<close> and then stops.\<close>

lemma sqrt_rat: "0 \<le> y \<Longrightarrow> y * y = x \<Longrightarrow> sqrt x = y"
  by (rule real_sqrt_unique) (simp_all add: power2_eq_square)

lemma inflections_none: "findInflectionPointsCubicBezier (pt 0 0) (pt 1 0) (pt 2 3) (pt (- 3) (- 5)) = (NaN, NaN)"
  by (simp add: findInflectionPointsCubicBezier_def solveQuadraticFormula_def fsub_def Let_def pt_def)

lemma split1: "splitCubicBezier (pt 0 0) (pt 1 0) (pt 2 3) (pt (- 3) (- 5)) (Fin (3 / 7)) =
   ((pt 0 0), (pt (3 / 7) 0), (pt (6 / 7) (27 / 49)), (pt (279 / 343) (27 / 49)), (pt (279 / 343) (27 / 49)), (pt (37 / 49) (27 / 49)), (pt (- (1 / 7)) (- (3 / 7))), (pt (- 3) (- 5)))"
  by (simp add: splitCubicBezier_def Interpolate_def Add_def Sub_def Mul_def fsub_def Let_def pt_def)

lemma split2: "splitCubicBezier (pt (279 / 343) (27 / 49)) (pt (37 / 49) (27 / 49)) (pt (- (1 / 7)) (- (3 / 7))) (pt (- 3) (- 5)) (Fin (3 / 4)) =
  ((pt (279 / 343) (27 / 49)), (pt (264 / 343) (27 / 49)), (pt (87 / 343) 0), (pt (- (414 / 343)) (- (108 / 49))), (pt (- (414 / 343)) (- (108 / 49))), (pt (- (83 / 49)) (- (144 / 49))), (pt (- (16 / 7)) (- (27 / 7))), (pt (- 3) (- 5)))"
  by (simp add: splitCubicBezier_def Interpolate_def Add_def Sub_def Mul_def fsub_def Let_def pt_def)

lemma split3: "splitCubicBezier (pt 0 0) (pt 1 0) (pt 2 3) (pt (- 3) (- 5)) (Fin (1 / 3)) =
  ((pt 0 0), (pt (1 / 3) 0), (pt (2 / 3) (1 / 3)), (pt (7 / 9) (13 / 27)), (pt (7 / 9) (13 / 27)), (pt 1 (7 / 9)), (pt (1 / 3) (1 / 3)), (pt (- 3) (- 5)))"
  by (simp add: splitCubicBezier_def Interpolate_def Add_def Sub_def Mul_def fsub_def Let_def pt_def)

lemma step1: "flattenSmoothStep (pt 0 0) (pt 1 0) (pt 2 3) (Fin 0) (Fin (81 / 196)) = Some (Fin (3 / 7))"
proof -
  have s: "sqrt (9 / 196) = 3 / 14" by (rule sqrt_rat) simp_all
  show ?thesis
    by (simp add: flattenSmoothStep_def fsub_def Let_def pt_def s)
qed

lemma step2: "flattenSmoothStep (pt (279 / 343) (27 / 49)) (pt (37 / 49) (27 / 49)) (pt (- (1 / 7)) (- (3 / 7))) (Fin 0) (Fin (81 / 196)) = Some (Fin (3 / 4))"
proof -
  have h: "sqrt (400 / 117649) = 20 / 343" by (rule sqrt_rat) simp_all
  have s: "sqrt (9 / 64) = 3 / 8" by (rule sqrt_rat) simp_all
  show ?thesis
    by (simp add: flattenSmoothStep_def fsub_def Let_def pt_def h s)
qed

lemma step1_tight: "flattenSmoothStep (pt 0 0) (pt 1 0) (pt 2 3) (Fin 0) (Fin (1 / 4)) = Some (Fin (1 / 3))"
proof -
  have s: "sqrt (1 / 36) = 1 / 6" by (rule sqrt_rat) simp_all
  show ?thesis
    by (simp add: flattenSmoothStep_def fsub_def Let_def pt_def s)
qed


lemma two_sqrt_ge:
  assumes "1 / 4 \<le> y"
  shows "1 < 2 * sqrt y \<or> 2 * sqrt y = 1"
proof -
  have "sqrt (1 / 4) \<le> sqrt y" using assms by (simp only: real_sqrt_le_iff)
  moreover have "sqrt (1 / 4) = 1 / 2" by (rule sqrt_rat) simp_all
  ultimately have "1 / 2 \<le> sqrt y" by simp
  then show ?thesis by linarith
qed

lemma sqrt_ge_half:
  assumes "1 / 4 \<le> x"
  shows "1 / 2 \<le> sqrt x"
proof -
  have "sqrt (1 / 4) \<le> sqrt x" using assms by (simp only: real_sqrt_le_iff)
  moreover have "sqrt (1 / 4) = 1 / 2" by (rule sqrt_rat) simp_all
  ultimately show ?thesis by simp
qed

lemma step3: "\<exists>t. flattenSmoothStep (pt (- (414 / 343)) (- (108 / 49))) (pt (- (83 / 49)) (- (144 / 49))) (pt (- (16 / 7)) (- (27 / 7))) (Fin 0) (Fin (81 / 196)) = Some t \<and> fge t (Fin 1)"
proof -
  have "1 / 2 \<le> sqrt (91393 / 117649)" by (rule sqrt_ge_half) simp
  then have "1 / 4 \<le> 1029 * sqrt (91393 / 117649) / 92" by simp
  from two_sqrt_ge [OF this] show ?thesis
    by (simp add: flattenSmoothStep_def fsub_def Let_def pt_def fge_def fle_def)
qed

lemma step2_tight: "\<exists>t. flattenSmoothStep (pt (7 / 9) (13 / 27)) (pt 1 (7 / 9)) (pt (1 / 3) (1 / 3)) (Fin 0) (Fin (1 / 4)) = Some t \<and> fge t (Fin 1)"
proof -
  have "sqrt (100 / 729) = 10 / 27" by (rule sqrt_rat) simp_all
  then have "1 / 4 \<le> 27 * sqrt (100 / 729) / 32" by simp
  from two_sqrt_ge [OF this] show ?thesis
    by (simp add: flattenSmoothStep_def fsub_def Let_def pt_def fge_def fle_def)
qed

lemma add0: "addCubicBezierLine p (pt x0 y0) p1 p2 (pt (- 3) (- 5)) (Fin 0) (Fin 0) = Inr (p @ [LineToCmd (Fin x0) (Fin y0)])"
  if "x0 \<noteq> - 3" for x0 y0
  using that by (simp add: addCubicBezierLine_def pt_def fne_def LineTo_def)

lemma add1: "addCubicBezierLine p (pt x0 y0) p1 p2 (pt (- 3) (- 5)) (Fin 1) (Fin 0) = Inr (p @ [LineToCmd (Fin (- 3)) (Fin (- 5))])"
  if "x0 \<noteq> - 3" for x0 y0
  using that by (simp add: addCubicBezierLine_def pt_def fne_def LineTo_def)

lemma stroke_loose: "strokeCubicBezier (pt 0 0) (pt 1 0) (pt 2 3) (pt (- 3) (- 5)) (Fin 0) (Fin (81 / 196))
   = Some (Inr [LineToCmd (Fin (279 / 343)) (Fin (27 / 49)), LineToCmd (Fin (- (414 / 343))) (Fin (- (108 / 49))),
                LineToCmd (Fin (- 3)) (Fin (- 5))])"
proof -
  obtain t where t: "flattenSmoothStep (pt (- (414 / 343)) (- (108 / 49))) (pt (- (83 / 49)) (- (144 / 49))) (pt (- (16 / 7)) (- (27 / 7))) (Fin 0) (Fin (81 / 196)) = Some t" "fge t (Fin 1)"
    using step3 by blast
  have l3: "flattenSmoothLoop p (pt (- (414 / 343)) (- (108 / 49))) (pt (- (83 / 49)) (- (144 / 49))) (pt (- (16 / 7)) (- (27 / 7))) (pt (- 3) (- 5)) (Fin 0) (Fin (81 / 196)) (Fin (3 / 4))
      = Some (Inr (p @ [LineToCmd (Fin (- 3)) (Fin (- 5))]))" for p
    by (subst flattenSmoothLoop.simps) (simp add: t add1)
  have l2: "flattenSmoothLoop p (pt (279 / 343) (27 / 49)) (pt (37 / 49) (27 / 49)) (pt (- (1 / 7)) (- (3 / 7))) (pt (- 3) (- 5)) (Fin 0) (Fin (81 / 196)) (Fin (3 / 7))
      = Some (Inr (p @ [LineToCmd (Fin (- (414 / 343))) (Fin (- (108 / 49))), LineToCmd (Fin (- 3)) (Fin (- 5))]))" for p
    by (subst flattenSmoothLoop.simps) (simp add: step2 split2 add0 l3 fge_def fle_def)
  have l1: "flattenSmoothLoop [] (pt 0 0) (pt 1 0) (pt 2 3) (pt (- 3) (- 5)) (Fin 0) (Fin (81 / 196)) (Fin 0)
      = Some (Inr [LineToCmd (Fin (279 / 343)) (Fin (27 / 49)), LineToCmd (Fin (- (414 / 343))) (Fin (- (108 / 49))), LineToCmd (Fin (- 3)) (Fin (- 5))])"
    by (subst flattenSmoothLoop.simps) (simp add: step1 split1 add0 l2 fge_def fle_def)
  show ?thesis
    by (simp add: strokeCubicBezier_def inflections_none IsNaN_def flattenSmoothCubicBezier_def l1)
qed

lemma stroke_tight: "strokeCubicBezier (pt 0 0) (pt 1 0) (pt 2 3) (pt (- 3) (- 5)) (Fin 0) (Fin (1 / 4))
   = Some (Inr [LineToCmd (Fin (7 / 9)) (Fin (13 / 27)), LineToCmd (Fin (- 3)) (Fin (- 5))])"
proof -
  obtain t where t: "flattenSmoothStep (pt (7 / 9) (13 / 27)) (pt 1 (7 / 9)) (pt (1 / 3) (1 / 3)) (Fin 0) (Fin (1 / 4)) = Some t" "fge t (Fin 1)"
    using step2_tight by blast
  have l2: "flattenSmoothLoop p (pt (7 / 9) (13 / 27)) (pt 1 (7 / 9)) (pt (1 / 3) (1 / 3)) (pt (- 3) (- 5)) (Fin 0) (Fin (1 / 4)) (Fin (1 / 3))
      = Some (Inr (p @ [LineToCmd (Fin (- 3)) (Fin (- 5))]))" for p
    by (subst flattenSmoothLoop.simps) (simp add: t add1)
  have l1: "flattenSmoothLoop [] (pt 0 0) (pt 1 0) (pt 2 3) (pt (- 3) (- 5)) (Fin 0) (Fin (1 / 4)) (Fin 0)
      = Some (Inr [LineToCmd (Fin (7 / 9)) (Fin (13 / 27)), LineToCmd (Fin (- 3)) (Fin (- 5))])"
    by (subst flattenSmoothLoop.simps) (simp add: step1_tight split3 add0 l2 fge_def fle_def)
  show ?thesis
    by (simp add: strokeCubicBezier_def inflections_none IsNaN_def flattenSmoothCubicBezier_def l1)
qed

text \<open>
  Claim C2, as stated: a tighter tolerance emits at least as many commands as a looser
  one. For the segment above and \<open>d = 0\<close>, the tolerance \<open>81/196\<close> gives three commands and
  the tighter tolerance \<open>1/4\<close> gives two.
\<close>

theorem strokeCubicBezier_count_not_monotone:
  "(0::real) < 1 / 4 \<and> (1 / 4 :: real) \<le> 81 / 196
   \<and> strokeCubicBezier (pt 0 0) (pt 1 0) (pt 2 3) (pt (- 3) (- 5)) (Fin 0) (Fin (81 / 196))
       = Some (Inr [LineToCmd (Fin (279 / 343)) (Fin (27 / 49)),
                    LineToCmd (Fin (- (414 / 343))) (Fin (- (108 / 49))),
                    LineToCmd (Fin (- 3)) (Fin (- 5))])
   \<and> strokeCubicBezier (pt 0 0) (pt 1 0) (pt 2 3) (pt (- 3) (- 5)) (Fin 0) (Fin (1 / 4))
       = Some (Inr [LineToCmd (Fin (7 / 9)) (Fin (13 / 27)), LineToCmd (Fin (- 3)) (Fin (- 5))])"
  using stroke_loose stroke_tight by simp

subsection \<open>What a tighter tolerance does guarantee\<close>

lemma findInflectionPointRange_core:
  "findInflectionPointRange p0 p1 p2 p3 t flatness =
     (if IsNaN t then Inr (PInf, PInf)
      else if flt t (Fin 0) \<or> fgt t (Fin 1) then Inl (Panic ''t outside 0.0--1.0 range'')
      else if fne t (Fin 0)
      then (case splitCubicBezier p0 p1 p2 p3 t of
              (_, _, _, _, r0, r1, r2, r3) \<Rightarrow> rangeCore r0 r1 r2 r3 t flatness)
      else rangeCore p0 p1 p2 p3 t flatness)"
  by (simp add: findInflectionPointRange_def rangeCore_def split: prod.splits)

lemma split_finite:
  "\<exists>a0 b0 a1 b1 a2 b2 a3 b3 c0 d0 c1 d1 c2 d2 c3 d3.
     splitCubicBezier (pt x0 y0) (pt x1 y1) (pt x2 y2) (pt x3 y3) (Fin t) =
       (pt a0 b0, pt a1 b1, pt a2 b2, pt a3 b3, pt c0 d0, pt c1 d1, pt c2 d2, pt c3 d3)"
  by (simp add: splitCubicBezier_def Interpolate_def Add_def Sub_def Mul_def fsub_def Let_def pt_def)

lemma hypot_pos: "(a::real) \<noteq> 0 \<or> b \<noteq> 0 \<Longrightarrow> 0 < sqrt (a * a + b * b)"
  by (auto simp: sum_squares_gt_zero_iff [unfolded power2_eq_square] add_pos_nonneg add_nonneg_pos)

lemma rangeCore_shape:
  assumes t: "0 \<le> t" "t \<le> 1"
  shows "(\<forall>e. rangeCore (pt x0 y0) (pt x1 y1) (pt x2 y2) (pt x3 y3) (Fin t) (Fin e) = Inr (Fin 0, Fin 1))
       \<or> (\<exists>s>0. \<forall>e. rangeCore (pt x0 y0) (pt x1 y1) (pt x2 y2) (pt x3 y3) (Fin t) (Fin e)
                      = Inr (Fin (t - root 3 (e / s) * (1 - t)), Fin (t + root 3 (e / s) * (1 - t))))"
proof -
  define a where "a = (if x1 - x0 = 0 \<and> y1 - y0 = 0 then x2 - x0 else x1 - x0)"
  define b where "b = (if x1 - x0 = 0 \<and> y1 - y0 = 0 then y2 - y0 else y1 - y0)"
  have nr: "(if feq (X (Sub (pt x1 y1) (pt x0 y0))) (Fin 0) \<and> feq (Y (Sub (pt x1 y1) (pt x0 y0))) (Fin 0)
             then Sub (pt x2 y2) (pt x0 y0) else Sub (pt x1 y1) (pt x0 y0)) = pt a b"
    by (simp add: Sub_def pt_def fsub_def a_def b_def)
  have ns: "Sub (pt x3 y3) (pt x0 y0) = pt (x3 - x0) (y3 - y0)"
    by (simp add: Sub_def pt_def fsub_def)
  show ?thesis
  proof (cases "a = 0 \<and> b = 0")
    case True
    then have "\<forall>e. rangeCore (pt x0 y0) (pt x1 y1) (pt x2 y2) (pt x3 y3) (Fin t) (Fin e) = Inr (Fin 0, Fin 1)"
      unfolding rangeCore_def Let_def nr ns by (simp add: pt_def)
    then show ?thesis by blast
  next
    case False
    then have h: "0 < sqrt (a * a + b * b)" using hypot_pos [of a b] by blast
    define s where "s = \<bar>(x3 - x0) * b - (y3 - y0) * a\<bar> / sqrt (a * a + b * b)"
    have s3: "fdiv (fabs (fsub (fmul (X (pt (x3 - x0) (y3 - y0))) (Y (pt a b))) (fmul (Y (pt (x3 - x0) (y3 - y0))) (X (pt a b)))))
                   (fhypot (X (pt a b)) (Y (pt a b))) = Fin s"
      using h False by (auto simp: pt_def fsub_def s_def)
    have s0: "0 \<le> s" using h by (simp add: s_def)
    have nz: "\<not> (feq (X (pt a b)) (Fin 0) \<and> feq (Y (pt a b)) (Fin 0))"
      using False by (simp add: pt_def)
    show ?thesis
    proof (cases "s = 0")
      case True
      have "\<forall>e. rangeCore (pt x0 y0) (pt x1 y1) (pt x2 y2) (pt x3 y3) (Fin t) (Fin e) = Inr (Fin 0, Fin 1)"
        unfolding rangeCore_def Let_def nr ns s3 using nz True by auto
      then show ?thesis by blast
    next
      case sn: False
      then have sp: "0 < s" using s0 by simp
      have "\<forall>e. rangeCore (pt x0 y0) (pt x1 y1) (pt x2 y2) (pt x3 y3) (Fin t) (Fin e)
                      = Inr (Fin (t - root 3 (e / s) * (1 - t)), Fin (t + root 3 (e / s) * (1 - t)))"
        unfolding rangeCore_def Let_def nr ns s3 using nz sn by (auto simp: fsub_def)
      with sp show ?thesis by blast
    qed
  qed
qed

lemma rangeCore_mono:
  assumes t: "0 \<le> t" "t \<le> 1" and e: "0 < e'" "e' \<le> e"
    and r: "rangeCore (pt x0 y0) (pt x1 y1) (pt x2 y2) (pt x3 y3) (Fin t) (Fin e) = Inr (lo, hi)"
  shows "\<exists>lo' hi'. rangeCore (pt x0 y0) (pt x1 y1) (pt x2 y2) (pt x3 y3) (Fin t) (Fin e') = Inr (lo', hi')
            \<and> fle lo lo' \<and> fle hi' hi"
proof -
  from rangeCore_shape [OF t, of x0 y0 x1 y1 x2 y2 x3 y3]
  consider (flat) "\<forall>e. rangeCore (pt x0 y0) (pt x1 y1) (pt x2 y2) (pt x3 y3) (Fin t) (Fin e) = Inr (Fin 0, Fin 1)"
    | (win) s where "0 < s" "\<forall>e. rangeCore (pt x0 y0) (pt x1 y1) (pt x2 y2) (pt x3 y3) (Fin t) (Fin e)
                      = Inr (Fin (t - root 3 (e / s) * (1 - t)), Fin (t + root 3 (e / s) * (1 - t)))"
    by blast
  then show ?thesis
  proof cases
    case flat
    with r show ?thesis by (auto simp: fle_def)
  next
    case win
    have "e' / s \<le> e / s" using e win(1) by (simp add: divide_right_mono)
    then have "root 3 (e' / s) \<le> root 3 (e / s)" by simp
    then have m: "root 3 (e' / s) * (1 - t) \<le> root 3 (e / s) * (1 - t)"
      using t by (simp add: mult_right_mono)
    from win(2) r have "lo = Fin (t - root 3 (e / s) * (1 - t))" "hi = Fin (t + root 3 (e / s) * (1 - t))"
      by auto
    moreover from win(2) have "rangeCore (pt x0 y0) (pt x1 y1) (pt x2 y2) (pt x3 y3) (Fin t) (Fin e')
        = Inr (Fin (t - root 3 (e' / s) * (1 - t)), Fin (t + root 3 (e' / s) * (1 - t)))" by blast
    ultimately show ?thesis using m by (auto simp: fle_def)
  qed
qed


lemma findInflectionPointRange_mono:
  assumes e: "0 < e'" "e' \<le> e"
    and r: "findInflectionPointRange (pt x0 y0) (pt x1 y1) (pt x2 y2) (pt x3 y3) u (Fin e) = Inr (lo, hi)"
  shows "\<exists>lo' hi'. findInflectionPointRange (pt x0 y0) (pt x1 y1) (pt x2 y2) (pt x3 y3) u (Fin e') = Inr (lo', hi')
            \<and> fle lo lo' \<and> fle hi' hi"
proof (cases u)
  case NaN
  with r show ?thesis by (auto simp: findInflectionPointRange_core IsNaN_def fle_def)
next
  case PInf
  with r show ?thesis by (simp add: findInflectionPointRange_core IsNaN_def fgt_def)
next
  case NInf
  with r show ?thesis by (simp add: findInflectionPointRange_core IsNaN_def fgt_def)
next
  case (Fin t)
  show ?thesis
  proof (cases "t < 0 \<or> 1 < t")
    case True
    with r Fin show ?thesis by (auto simp: findInflectionPointRange_core IsNaN_def fgt_def)
  next
    case False
    then have t: "0 \<le> t" "t \<le> 1" by auto
    show ?thesis
    proof (cases "t = 0")
      case True
      with r Fin have "rangeCore (pt x0 y0) (pt x1 y1) (pt x2 y2) (pt x3 y3) (Fin t) (Fin e) = Inr (lo, hi)"
        by (simp add: findInflectionPointRange_core IsNaN_def fgt_def fne_def)
      from rangeCore_mono [OF t e this] show ?thesis
        using True Fin by (simp add: findInflectionPointRange_core IsNaN_def fgt_def fne_def)
    next
      case tn: False
      obtain a0 b0 a1 b1 a2 b2 a3 b3 c0 d0 c1 d1 c2 d2 c3 d3 where
        sp: "splitCubicBezier (pt x0 y0) (pt x1 y1) (pt x2 y2) (pt x3 y3) (Fin t) =
              (pt a0 b0, pt a1 b1, pt a2 b2, pt a3 b3, pt c0 d0, pt c1 d1, pt c2 d2, pt c3 d3)"
        using split_finite [of x0 y0 x1 y1 x2 y2 x3 y3 t] by (elim exE) blast
      from r Fin tn t have "rangeCore (pt c0 d0) (pt c1 d1) (pt c2 d2) (pt c3 d3) (Fin t) (Fin e) = Inr (lo, hi)"
        by (simp add: findInflectionPointRange_core IsNaN_def fgt_def fne_def sp)
      from rangeCore_mono [OF t e this] show ?thesis
        using tn t Fin by (simp add: findInflectionPointRange_core IsNaN_def fgt_def fne_def sp)
    qed
  qed
qed

lemma flattenSmoothStep_closed:
  fixes x0 y0 x1 y1 x2 y2 d e :: real
  assumes "0 < e"
    and s2nom_def: "s2nom = (x2 - x0) * (y1 - y0) - (y2 - y0) * (x1 - x0)"
    and denom_def: "denom = sqrt ((x1 - x0) * (x1 - x0) + (y1 - y0) * (y1 - y0))"
    and K_def: "K = \<bar>1 + 2 * d * (s2nom / denom) / 3 / denom / denom\<bar>"
  shows "flattenSmoothStep (pt x0 y0) (pt x1 y1) (pt x2 y2) (Fin d) (Fin e) =
           (if s2nom * denom = 0 then None
            else if K = 0 then Some PInf
            else Some (Fin (2 * sqrt (e / K / 3 / \<bar>s2nom / denom\<bar>))))"
proof (cases "s2nom * denom = 0")
  case True
  then show ?thesis
    unfolding flattenSmoothStep_def s2nom_def denom_def by (simp add: pt_def fsub_def)
next
  case False
  then have nz: "s2nom \<noteq> 0" "denom \<noteq> 0" by auto
  have s2nomF: "fsub (fmul (fsub (X (pt x2 y2)) (X (pt x0 y0))) (fsub (Y (pt x1 y1)) (Y (pt x0 y0))))
                       (fmul (fsub (Y (pt x2 y2)) (Y (pt x0 y0))) (fsub (X (pt x1 y1)) (X (pt x0 y0)))) = Fin s2nom"
    by (simp add: pt_def fsub_def s2nom_def)
  have denomF: "fhypot (fsub (X (pt x1 y1)) (X (pt x0 y0))) (fsub (Y (pt x1 y1)) (Y (pt x0 y0))) = Fin denom"
    by (simp add: pt_def fsub_def denom_def)
  have KF: "fabs (fadd (Fin 1) (fdiv (fdiv (fdiv (fmul (fmul (Fin 2) (Fin d)) (Fin (s2nom / denom))) (Fin 3)) (Fin denom)) (Fin denom))) = Fin K"
    using nz by (simp add: K_def)
  have s2: "fdiv (Fin s2nom) (Fin denom) = Fin (s2nom / denom)" using nz by simp
  have a: "0 < \<bar>s2nom / denom\<bar>" using nz by simp
  show ?thesis
  proof (cases "K = 0")
    case True
    show ?thesis
      unfolding flattenSmoothStep_def Let_def s2nomF denomF KF s2
      using False True assms(1) by (simp add: inf_of_sign_def)
  next
    case Kn: False
    then have Kp: "0 < K" by (simp add: K_def)
    have "0 \<le> e / K / 3 / \<bar>s2nom / denom\<bar>" using assms(1) Kp a by simp
    then have "\<not> e / K / 3 / \<bar>s2nom / denom\<bar> < 0" by simp
    then show ?thesis
      unfolding flattenSmoothStep_def Let_def s2nomF denomF KF s2
      using False Kn by simp
  qed
qed

lemma flattenSmoothStep_mono:
  assumes e: "0 < e'" "e' \<le> e"
  shows "(flattenSmoothStep (pt x0 y0) (pt x1 y1) (pt x2 y2) (Fin d) (Fin e') = None
            \<longleftrightarrow> flattenSmoothStep (pt x0 y0) (pt x1 y1) (pt x2 y2) (Fin d) (Fin e) = None)
       \<and> (\<forall>t. flattenSmoothStep (pt x0 y0) (pt x1 y1) (pt x2 y2) (Fin d) (Fin e) = Some t \<longrightarrow>
             (\<exists>t'. flattenSmoothStep (pt x0 y0) (pt x1 y1) (pt x2 y2) (Fin d) (Fin e') = Some t' \<and> fle t' t))"
proof -
  define s2nom where "s2nom = (x2 - x0) * (y1 - y0) - (y2 - y0) * (x1 - x0)"
  define denom where "denom = sqrt ((x1 - x0) * (x1 - x0) + (y1 - y0) * (y1 - y0))"
  define K where "K = \<bar>1 + 2 * d * (s2nom / denom) / 3 / denom / denom\<bar>"
  have ep: "0 < e" using e by simp
  note c = flattenSmoothStep_closed [OF ep s2nom_def denom_def K_def]
  note c' = flattenSmoothStep_closed [OF e(1) s2nom_def denom_def K_def]
  have K0: "0 \<le> K" by (simp add: K_def)
  have m: "K \<noteq> 0 \<Longrightarrow> s2nom * denom \<noteq> 0 \<Longrightarrow>
           sqrt (e' / K / 3 / \<bar>s2nom / denom\<bar>) \<le> sqrt (e / K / 3 / \<bar>s2nom / denom\<bar>)"
  proof -
    assume "K \<noteq> 0" "s2nom * denom \<noteq> 0"
    then have "0 < K" "0 < \<bar>s2nom / denom\<bar>" using K0 by auto
    then have "e' / K / 3 / \<bar>s2nom / denom\<bar> \<le> e / K / 3 / \<bar>s2nom / denom\<bar>"
      using e by (intro divide_right_mono) auto
    then show ?thesis by simp
  qed
  show ?thesis
  proof (cases "s2nom * denom = 0")
    case True
    then show ?thesis unfolding c c' by simp
  next
    case nz: False
    show ?thesis
    proof (cases "K = 0")
      case True
      then show ?thesis unfolding c c' using nz by (simp add: fle_def)
    next
      case False
      from m [OF False nz] show ?thesis
        unfolding c c' using nz False by (simp add: fle_Fin)
    qed
  qed
qed
lemma root3_rat: "0 \<le> y \<Longrightarrow> y * y * y = x \<Longrightarrow> root 3 x = y"
proof -
  assume a: "0 \<le> y" "y * y * y = x"
  have "root 3 (y ^ 3) = y" using a(1) by (simp add: real_root_power_cancel)
  moreover have "y ^ 3 = x" using a(2) by (simp add: power3_eq_cube)
  ultimately show ?thesis by simp
qed

lemma splitw: "splitCubicBezier (pt (- 1) (- 4)) (pt (- 4) (- 2)) (pt (- 1) 0) (pt (- 4) (- 4)) (Fin (1 / 2)) =
   (pt (- 1) (- 4), pt (- (5 / 2)) (- 3), pt (- (5 / 2)) (- 2), pt (- (5 / 2)) (- (7 / 4)),
    pt (- (5 / 2)) (- (7 / 4)), pt (- (5 / 2)) (- (3 / 2)), pt (- (5 / 2)) (- 2), pt (- 4) (- 4))"
  by (simp add: splitCubicBezier_def Interpolate_def Add_def Sub_def Mul_def fsub_def Let_def pt_def)

lemma window_loose:
  "findInflectionPointRange (pt (- 1) (- 4)) (pt (- 4) (- 2)) (pt (- 1) 0) (pt (- 4) (- 4)) (Fin (1 / 2)) (Fin (3993 / 2000))
     = Inr (Fin (- (1 / 20)), Fin (21 / 20))"
proof -
  have h: "sqrt (1 / 16) = 1 / 4" by (rule sqrt_rat) simp_all
  have c: "root 3 (1331 / 1000) = 11 / 10" by (rule root3_rat) simp_all
  have "rangeCore (pt (- (5 / 2)) (- (7 / 4))) (pt (- (5 / 2)) (- (3 / 2))) (pt (- (5 / 2)) (- 2)) (pt (- 4) (- 4))
          (Fin (1 / 2)) (Fin (3993 / 2000)) = Inr (Fin (- (1 / 20)), Fin (21 / 20))"
    by (simp add: rangeCore_def Sub_def fsub_def pt_def h c)
  then show ?thesis
    by (simp add: findInflectionPointRange_core IsNaN_def fgt_def fne_def splitw)
qed

lemma window_tight:
  "findInflectionPointRange (pt (- 1) (- 4)) (pt (- 4) (- 2)) (pt (- 1) 0) (pt (- 4) (- 4)) (Fin (1 / 2)) (Fin (3 / 2))
     = Inr (Fin 0, Fin 1)"
proof -
  have h: "sqrt (1 / 16) = 1 / 4" by (rule sqrt_rat) simp_all
  have "rangeCore (pt (- (5 / 2)) (- (7 / 4))) (pt (- (5 / 2)) (- (3 / 2))) (pt (- (5 / 2)) (- 2)) (pt (- 4) (- 4))
          (Fin (1 / 2)) (Fin (3 / 2)) = Inr (Fin 0, Fin 1)"
    by (simp add: rangeCore_def Sub_def fsub_def pt_def h)
  then show ?thesis
    by (simp add: findInflectionPointRange_core IsNaN_def fgt_def fne_def splitw)
qed

lemma fle_trans: "fle a b \<Longrightarrow> fle b c \<Longrightarrow> fle a c"
  by (cases a; cases b; cases c) (auto simp: fle_def)

lemma flattenSmooth_single_chord:
  assumes e: "0 < e'" "e' \<le> e"
    and stop: "flattenSmoothStep (pt x0 y0) (pt x1 y1) (pt x2 y2) (Fin d) (Fin e') = None
               \<or> (\<exists>t'. flattenSmoothStep (pt x0 y0) (pt x1 y1) (pt x2 y2) (Fin d) (Fin e') = Some t' \<and> fge t' (Fin 1))"
  shows "flattenSmoothCubicBezier p (pt x0 y0) (pt x1 y1) (pt x2 y2) p3 (Fin d) (Fin e')
           = Some (addCubicBezierLine p (pt x0 y0) (pt x1 y1) (pt x2 y2) p3 (Fin 1) (Fin d))
       \<and> flattenSmoothCubicBezier p (pt x0 y0) (pt x1 y1) (pt x2 y2) p3 (Fin d) (Fin e)
           = Some (addCubicBezierLine p (pt x0 y0) (pt x1 y1) (pt x2 y2) p3 (Fin 1) (Fin d))"
proof -
  note m = flattenSmoothStep_mono [OF e, of x0 y0 x1 y1 x2 y2 d]
  from stop show ?thesis
  proof
    assume n: "flattenSmoothStep (pt x0 y0) (pt x1 y1) (pt x2 y2) (Fin d) (Fin e') = None"
    with m have n': "flattenSmoothStep (pt x0 y0) (pt x1 y1) (pt x2 y2) (Fin d) (Fin e) = None" by simp
    show ?thesis
      unfolding flattenSmoothCubicBezier_def
      by (subst flattenSmoothLoop.simps, subst (2) flattenSmoothLoop.simps) (simp add: n n')
  next
    assume "\<exists>t'. flattenSmoothStep (pt x0 y0) (pt x1 y1) (pt x2 y2) (Fin d) (Fin e') = Some t' \<and> fge t' (Fin 1)"
    then obtain t' where t': "flattenSmoothStep (pt x0 y0) (pt x1 y1) (pt x2 y2) (Fin d) (Fin e') = Some t'"
      and g: "fle (Fin 1) t'" by (auto simp: fge_def)
    from m t' have "flattenSmoothStep (pt x0 y0) (pt x1 y1) (pt x2 y2) (Fin d) (Fin e) \<noteq> None" by simp
    then obtain t where t: "flattenSmoothStep (pt x0 y0) (pt x1 y1) (pt x2 y2) (Fin d) (Fin e) = Some t" by blast
    with m t' have "fle t' t" by auto
    with g have g': "fle (Fin 1) t" by (rule fle_trans)
    show ?thesis
      unfolding flattenSmoothCubicBezier_def
      by (subst flattenSmoothLoop.simps, subst (2) flattenSmoothLoop.simps) (simp add: t t' g g' fge_def)
  qed
qed


lemma step_coarse: "flattenSmoothStep (pt 0 0) (pt 1 0) (pt 2 3) (Fin 0) (Fin 9) = Some (Fin 2)"
  by (simp add: flattenSmoothStep_def fsub_def Let_def pt_def)

text \<open>
  Claim C2, amended. For finite control points, a finite offset \<open>d\<close> and tolerances
  \<open>0 < eps' \<le> eps\<close>: from the same segment the smooth flattener stops for a zero curvature
  signal with \<open>eps'\<close> exactly when it does with \<open>eps\<close>, and otherwise the subdivision
  parameter it computes with \<open>eps'\<close> is at most the one it computes with \<open>eps\<close>; for every
  inflection parameter \<open>u\<close> the window computed with \<open>eps'\<close> lies inside the window computed
  with \<open>eps\<close>; and when the smooth flattener with \<open>eps'\<close> does not subdivide, the one with
  \<open>eps\<close> does not either, and both return the path with the one closing call of
  \<^verbatim>\<open>addCubicBezierLine\<close>. (The number of emitted commands is not monotone, as shown
  above.)
\<close>

theorem flatness_refinement_steps:
  assumes "0 < eps'" "eps' \<le> eps"
  shows "(flattenSmoothStep (pt x0 y0) (pt x1 y1) (pt x2 y2) (Fin d) (Fin eps') = None
            \<longleftrightarrow> flattenSmoothStep (pt x0 y0) (pt x1 y1) (pt x2 y2) (Fin d) (Fin eps) = None)
       \<and> (\<forall>t. flattenSmoothStep (pt x0 y0) (pt x1 y1) (pt x2 y2) (Fin d) (Fin eps) = Some t \<longrightarrow>
             (\<exists>t'. flattenSmoothStep (pt x0 y0) (pt x1 y1) (pt x2 y2) (Fin d) (Fin eps') = Some t'
                    \<and> fle t' t))
       \<and> (\<forall>lo hi. findInflectionPointRange (pt x0 y0) (pt x1 y1) (pt x2 y2) (pt x3 y3) u (Fin eps)
                      = Inr (lo, hi) \<longrightarrow>
             (\<exists>lo' hi'. findInflectionPointRange (pt x0 y0) (pt x1 y1) (pt x2 y2) (pt x3 y3) u (Fin eps')
                           = Inr (lo', hi')
                         \<and> fle lo lo' \<and> fle hi' hi))
       \<and> (flattenSmoothStep (pt x0 y0) (pt x1 y1) (pt x2 y2) (Fin d) (Fin eps') = None
            \<or> (\<exists>t'. flattenSmoothStep (pt x0 y0) (pt x1 y1) (pt x2 y2) (Fin d) (Fin eps') = Some t'
                     \<and> fge t' (Fin 1))
          \<longrightarrow> flattenSmoothCubicBezier p (pt x0 y0) (pt x1 y1) (pt x2 y2) (pt x3 y3) (Fin d) (Fin eps')
                = Some (addCubicBezierLine p (pt x0 y0) (pt x1 y1) (pt x2 y2) (pt x3 y3) (Fin 1) (Fin d))
              \<and> flattenSmoothCubicBezier p (pt x0 y0) (pt x1 y1) (pt x2 y2) (pt x3 y3) (Fin d) (Fin eps)
                = Some (addCubicBezierLine p (pt x0 y0) (pt x1 y1) (pt x2 y2) (pt x3 y3) (Fin 1) (Fin d)))"
  using flattenSmoothStep_mono [OF assms, of x0 y0 x1 y1 x2 y2 d]
        findInflectionPointRange_mono [OF assms, of x0 y0 x1 y1 x2 y2 x3 y3 u]
        flattenSmooth_single_chord [OF assms, of x0 y0 x1 y1 x2 y2 d p "pt x3 y3"]
  by blast

theorem flatness_refinement_steps_witness:
  "(0::real) < 1 / 4 \<and> (1 / 4 :: real) \<le> 81 / 196
   \<and> flattenSmoothStep (pt 0 0) (pt 1 0) (pt 2 3) (Fin 0) (Fin (81 / 196)) = Some (Fin (3 / 7))
   \<and> (\<exists>t'. flattenSmoothStep (pt 0 0) (pt 1 0) (pt 2 3) (Fin 0) (Fin (1 / 4)) = Some t'
            \<and> fle t' (Fin (3 / 7)))
   \<and> (0::real) < 3 / 2 \<and> (3 / 2 :: real) \<le> 3993 / 2000
   \<and> findInflectionPointRange (pt (- 1) (- 4)) (pt (- 4) (- 2)) (pt (- 1) 0) (pt (- 4) (- 4))
        (Fin (1 / 2)) (Fin (3993 / 2000)) = Inr (Fin (- (1 / 20)), Fin (21 / 20))
   \<and> (\<exists>lo' hi'. findInflectionPointRange (pt (- 1) (- 4)) (pt (- 4) (- 2)) (pt (- 1) 0) (pt (- 4) (- 4))
                    (Fin (1 / 2)) (Fin (3 / 2)) = Inr (lo', hi')
                 \<and> fle (Fin (- (1 / 20))) lo' \<and> fle hi' (Fin (21 / 20)))
   \<and> (0::real) < 9 \<and> (9::real) \<le> 36
   \<and> flattenSmoothStep (pt 0 0) (pt 1 0) (pt 2 3) (Fin 0) (Fin 9) = Some (Fin 2)
   \<and> fge (Fin 2) (Fin 1)
   \<and> flattenSmoothCubicBezier [] (pt 0 0) (pt 1 0) (pt 2 3) (pt (- 3) (- 5)) (Fin 0) (Fin 36)
        = Some (Inr [LineToCmd (Fin (- 3)) (Fin (- 5))])"
proof -
  have a: "(0::real) < 1 / 4" "(1 / 4 :: real) \<le> 81 / 196" by simp_all
  have b: "(0::real) < 3 / 2" "(3 / 2 :: real) \<le> 3993 / 2000" by simp_all
  have c: "(0::real) < 9" "(9::real) \<le> 36" by simp_all
  from flatness_refinement_steps [OF a, of 0 0 1 0 2 3 0] step1
  have 1: "\<exists>t'. flattenSmoothStep (pt 0 0) (pt 1 0) (pt 2 3) (Fin 0) (Fin (1 / 4)) = Some t'
            \<and> fle t' (Fin (3 / 7))" by blast
  from flatness_refinement_steps [OF b, of "- 1" "- 4" "- 4" "- 2" "- 1" 0 0 "- 4" "- 4" "Fin (1 / 2)"]
    window_loose
  have 2: "\<exists>lo' hi'. findInflectionPointRange (pt (- 1) (- 4)) (pt (- 4) (- 2)) (pt (- 1) 0) (pt (- 4) (- 4))
                    (Fin (1 / 2)) (Fin (3 / 2)) = Inr (lo', hi')
                 \<and> fle (Fin (- (1 / 20))) lo' \<and> fle hi' (Fin (21 / 20))" by blast
  have g: "fge (Fin 2) (Fin 1)" by (simp add: fge_def fle_def)
  from flatness_refinement_steps [OF c, of 0 0 1 0 2 3 0 "- 3" "- 5" _ "[]"] step_coarse g
  have "flattenSmoothCubicBezier [] (pt 0 0) (pt 1 0) (pt 2 3) (pt (- 3) (- 5)) (Fin 0) (Fin 36)
          = Some (addCubicBezierLine [] (pt 0 0) (pt 1 0) (pt 2 3) (pt (- 3) (- 5)) (Fin 1) (Fin 0))"
    by blast
  then have 3: "flattenSmoothCubicBezier [] (pt 0 0) (pt 1 0) (pt 2 3) (pt (- 3) (- 5)) (Fin 0) (Fin 36)
        = Some (Inr [LineToCmd (Fin (- 3)) (Fin (- 5))])"
    using add1 [of 0 "[]" 0] by simp
  show ?thesis using a b c step1 window_loose step_coarse g 1 2 3 by blast
qed

subsection \<open>A fully degenerate segment\<close>

lemma stroke_degenerate:
  "strokeCubicBezier (pt 1 2) (pt 1 2) (pt 1 2) (pt 1 2) (Fin 0) flatness = Some (Inr [LineToCmd (Fin 1) (Fin 2)])"
proof -
  have i: "findInflectionPointsCubicBezier (pt 1 2) (pt 1 2) (pt 1 2) (pt 1 2) = (Fin 0, NaN)"
    by (simp add: findInflectionPointsCubicBezier_def solveQuadraticFormula_def fsub_def Let_def pt_def)
  have r1: "findInflectionPointRange (pt 1 2) (pt 1 2) (pt 1 2) (pt 1 2) (Fin 0) flatness = Inr (Fin 0, Fin 1)"
    by (simp add: findInflectionPointRange_core rangeCore_def IsNaN_def fgt_def fne_def Sub_def fsub_def pt_def)
  have r2: "findInflectionPointRange (pt 1 2) (pt 1 2) (pt 1 2) (pt 1 2) NaN flatness = Inr (PInf, PInf)"
    by (simp add: findInflectionPointRange_core IsNaN_def)
  have a: "addCubicBezierLine [] (pt 1 2) (pt 1 2) (pt 1 2) (pt 1 2) (Fin 1) (Fin 0) = Inr [LineToCmd (Fin 1) (Fin 2)]"
    by (simp add: addCubicBezierLine_def pt_def fne_def LineTo_def)
  show ?thesis
    by (simp add: strokeCubicBezier_def i r1 r2 a IsNaN_def fle_def)
qed


text \<open>
  Claim C1, on the code. The segment whose four control points are all \<open>(1, 2)\<close> is fully
  degenerate, and \<^verbatim>\<open>addCubicBezierLine\<close> appends a line command for it, at \<open>t = 0\<close> and at
  \<open>t = 1\<close>, with and without an offset, and so does \<^verbatim>\<open>strokeCubicBezier\<close>: the test of
  the source compares \<^verbatim>\<open>p0.Y\<close> with \<^verbatim>\<open>p3.X\<close>.
\<close>

theorem addCubicBezierLine_degenerate_emits:
  "addCubicBezierLine [] (pt 1 2) (pt 1 2) (pt 1 2) (pt 1 2) (Fin 0) (Fin 0)
     = Inr [LineToCmd (Fin 1) (Fin 2)]
   \<and> addCubicBezierLine [] (pt 1 2) (pt 1 2) (pt 1 2) (pt 1 2) (Fin 1) (Fin 0)
     = Inr [LineToCmd (Fin 1) (Fin 2)]
   \<and> addCubicBezierLine [] (pt 1 2) (pt 1 2) (pt 1 2) (pt 1 2) (Fin 0) (Fin 3)
     = Inr [LineToCmd (Fin 1) (Fin 2)]
   \<and> addCubicBezierLine [] (pt 1 2) (pt 1 2) (pt 1 2) (pt 1 2) (Fin 1) (Fin 3)
     = Inr [LineToCmd (Fin 1) (Fin 2)]
   \<and> strokeCubicBezier (pt 1 2) (pt 1 2) (pt 1 2) (pt 1 2) (Fin 0) (Fin (1 / 100))
     = Some (Inr [LineToCmd (Fin 1) (Fin 2)])"
  by (simp add: stroke_degenerate)
     (simp add: addCubicBezierLine_def cubicBezierNormal_def LineTo_def fne_def Sub_def Add_def
      fsub_def PointZero_def pt_def)

end
